theory Spec2Isabelle
  imports Main "HOL-Library.Word"
begin

section \<open>Common definitions (module.h)\<close>

type_synonym u8 = "8 word"
type_synonym u16 = "16 word"
type_synonym u32 = "32 word"

text \<open>The negative \<open>MOD_ERR\<close> return codes. A function returning "0 or a count for
  success, else a MOD_ERR value" is modelled with the result type \<open>mod_err + int\<close>.\<close>

datatype mod_err =
    MOD_ERR_ARG
  | MOD_ERR_RESOURCE
  | MOD_ERR_STATE
  | MOD_ERR_BAD_CMD
  | MOD_ERR_BUF_OVERRUN
  | MOD_ERR_BAD_INSTANCE

text \<open>\<^verbatim>\<open>#define INC_SAT_U16(a) do { (a) += ((a) == UINT16_MAX ? 0 : 1); } while (0)\<close>\<close>

definition INC_SAT_U16 :: "u16 \<Rightarrow> u16" where
  "INC_SAT_U16 a = a + (if a = 0xFFFF then 0 else 1)"

section \<open>Timer service (tmr.c)\<close>

definition TMR_NUM_INST :: nat where
  "TMR_NUM_INST = 5"

datatype tmr_state = TMR_UNUSED | TMR_STOPPED | TMR_RUNNING | TMR_EXPIRED

datatype tmr_cb_action = TMR_CB_NONE | TMR_CB_RESTART

text \<open>\<open>struct tmr_inst_info\<close>. The callback is a function pointer: \<open>None\<close> is
  \<open>NULL\<close>, \<open>Some f\<close> the address \<open>f\<close> of a callback.\<close>

record tmr_inst_info =
  period_ms :: u32
  start_time :: u32
  state :: tmr_state
  cb_func :: "nat option"
  cb_user_data :: u32

text \<open>The static variables of the module: the tick counter, the timer pool and the
  static local \<open>last_ms\<close> of \<open>tmr_run\<close>.\<close>

record tmr_mod =
  tick_ms_ctr :: u32
  tmrs :: "tmr_inst_info list"
  last_ms :: u32

text \<open>A callback runs in the main loop and may call back into the module and take time
  (tick interrupts arrive while it runs), so it is a transformer of the whole module
  state that also returns its directive. The table maps function addresses to code.\<close>

type_synonym tmr_cb_func = "int \<Rightarrow> u32 \<Rightarrow> tmr_mod \<Rightarrow> tmr_cb_action \<times> tmr_mod"

definition tmr_init_state :: tmr_mod where
  "tmr_init_state =
     \<lparr>tick_ms_ctr = 0,
      tmrs = replicate TMR_NUM_INST
        \<lparr>period_ms = 0, start_time = 0, state = TMR_UNUSED, cb_func = None, cb_user_data = 0\<rparr>,
      last_ms = 0\<rparr>"

definition tmr_get_ms :: "tmr_mod \<Rightarrow> u32" where
  "tmr_get_ms s = tick_ms_ctr s"


text \<open>The body of the \<open>for\<close> loop of \<open>tmr_run\<close> for slot \<open>idx\<close>; the loop carries the
  local \<open>now_ms\<close> and the module state.\<close>

definition tmr_run_slot :: "(nat \<Rightarrow> tmr_cb_func) \<Rightarrow> nat \<Rightarrow> u32 \<times> tmr_mod \<Rightarrow> u32 \<times> tmr_mod" where
  "tmr_run_slot cbs idx c =
     (case c of (now_ms, s) \<Rightarrow>
        let ti = tmrs s ! idx in
        if state ti = TMR_RUNNING \<and> now_ms - start_time ti \<ge> period_ms ti then
          let s1 = s\<lparr>tmrs := (tmrs s)[idx := ti\<lparr>state := TMR_EXPIRED\<rparr>]\<rparr> in
          (case cb_func ti of
             None \<Rightarrow> (now_ms, s1)
           | Some f \<Rightarrow>
               (case cbs f (int idx) (cb_user_data ti) s1 of (result, s2) \<Rightarrow>
                  let now_ms' = tmr_get_ms s2 in
                  if result = TMR_CB_RESTART then
                    let ti2 = tmrs s2 ! idx in
                    (now_ms', s2\<lparr>tmrs := (tmrs s2)[idx := ti2\<lparr>state := TMR_RUNNING,
                        start_time := start_time ti2 + period_ms ti2\<rparr>]\<rparr>)
                  else (now_ms', s2)))
        else (now_ms, s))"

definition tmr_run :: "(nat \<Rightarrow> tmr_cb_func) \<Rightarrow> tmr_mod \<Rightarrow> (mod_err + int) \<times> tmr_mod" where
  "tmr_run cbs s =
     (let now_ms = tmr_get_ms s in
      if now_ms = last_ms s then (Inr 0, s)
      else (Inr 0, snd (fold (tmr_run_slot cbs) [0..<TMR_NUM_INST] (now_ms, s\<lparr>last_ms := now_ms\<rparr>))))"

text \<open>The search loop of \<open>tmr_inst_get\<close>, from slot \<open>idx\<close> on. The \<open>log_error\<close> of the
  exhausted case writes to the console only and is not part of the timer state.\<close>

function tmr_inst_get_from :: "nat \<Rightarrow> u32 \<Rightarrow> tmr_mod \<Rightarrow> (mod_err + int) \<times> tmr_mod" where
  "tmr_inst_get_from idx ms s =
     (if idx < TMR_NUM_INST then
        (let ti = tmrs s ! idx in
         if state ti = TMR_UNUSED then
           (let ti1 = ti\<lparr>period_ms := ms\<rparr>;
                ti2 = (if ms = 0 then ti1\<lparr>state := TMR_STOPPED\<rparr>
                       else ti1\<lparr>start_time := tmr_get_ms s, state := TMR_RUNNING\<rparr>);
                ti3 = ti2\<lparr>cb_func := None, cb_user_data := 0\<rparr>
            in (Inr (int idx), s\<lparr>tmrs := (tmrs s)[idx := ti3]\<rparr>))
         else tmr_inst_get_from (idx + 1) ms s)
      else (Inl MOD_ERR_RESOURCE, s))"
  by pat_completeness auto
termination
  by (relation "measure (\<lambda>(idx, ms, s). TMR_NUM_INST - idx)") auto

declare tmr_inst_get_from.simps [simp del]

definition tmr_inst_get :: "u32 \<Rightarrow> tmr_mod \<Rightarrow> (mod_err + int) \<times> tmr_mod" where
  "tmr_inst_get ms s = tmr_inst_get_from 0 ms s"

definition tmr_inst_get_cb :: "u32 \<Rightarrow> nat option \<Rightarrow> u32 \<Rightarrow> tmr_mod \<Rightarrow> (mod_err + int) \<times> tmr_mod" where
  "tmr_inst_get_cb ms f ud s =
     (case tmr_inst_get ms s of
        (Inr tmr_id, s') \<Rightarrow>
          (Inr tmr_id, s'\<lparr>tmrs := (tmrs s')[nat tmr_id :=
             (tmrs s' ! nat tmr_id)\<lparr>cb_func := f, cb_user_data := ud\<rparr>]\<rparr>)
      | (Inl e, s') \<Rightarrow> (Inl e, s'))"

definition tmr_inst_start :: "int \<Rightarrow> u32 \<Rightarrow> tmr_mod \<Rightarrow> (mod_err + int) \<times> tmr_mod" where
  "tmr_inst_start tmr_id ms s =
     (if tmr_id \<ge> 0 \<and> tmr_id < int TMR_NUM_INST then
        (let ti = tmrs s ! nat tmr_id in
         if state ti \<noteq> TMR_UNUSED then
           (let ti1 = ti\<lparr>period_ms := ms\<rparr>;
                ti2 = (if ms = 0 then ti1\<lparr>state := TMR_STOPPED\<rparr>
                       else ti1\<lparr>start_time := tmr_get_ms s, state := TMR_RUNNING\<rparr>)
            in (Inr 0, s\<lparr>tmrs := (tmrs s)[nat tmr_id := ti2]\<rparr>))
         else (Inl MOD_ERR_STATE, s))
      else (Inl MOD_ERR_ARG, s))"

definition tmr_inst_release :: "int \<Rightarrow> tmr_mod \<Rightarrow> (mod_err + int) \<times> tmr_mod" where
  "tmr_inst_release tmr_id s =
     (if tmr_id \<ge> 0 \<and> tmr_id < int TMR_NUM_INST then
        (Inr 0, s\<lparr>tmrs := (tmrs s)[nat tmr_id := (tmrs s ! nat tmr_id)\<lparr>state := TMR_UNUSED\<rparr>]\<rparr>)
      else (Inl MOD_ERR_ARG, s))"

definition tmr_inst_is_expired :: "int \<Rightarrow> tmr_mod \<Rightarrow> mod_err + int" where
  "tmr_inst_is_expired tmr_id s =
     (if tmr_id \<ge> 0 \<and> tmr_id < int TMR_NUM_INST then
        Inr (if state (tmrs s ! nat tmr_id) = TMR_EXPIRED then 1 else 0)
      else Inl MOD_ERR_ARG)"







text \<open>A pool used to exercise the operations: slot 0 is a running periodic timer
  (period 10 ms, started at 0) with a callback, the other slots are acquired and stopped.\<close>

definition tmr_busy_state :: "u32 \<Rightarrow> u32 \<Rightarrow> tmr_mod" where
  "tmr_busy_state now lst =
     \<lparr>tick_ms_ctr = now,
      tmrs = \<lparr>period_ms = 10, start_time = 0, state = TMR_RUNNING, cb_func = Some 0,
               cb_user_data = 0\<rparr> #
             replicate 4 \<lparr>period_ms = 0, start_time = 0, state = TMR_STOPPED, cb_func = None,
               cb_user_data = 0\<rparr>,
      last_ms = lst\<rparr>"

text \<open>Callbacks: one that only asks for a restart; one that rearms its own timer with a
  period of 25 ms and then asks for a restart; and a table in which callback 0 takes 4 ms
  (four tick interrupts arrive while it runs) and the others return at once, all asking
  for a restart.\<close>

definition cb_restart :: "nat \<Rightarrow> tmr_cb_func" where
  "cb_restart f tmr_id user_data s = (TMR_CB_RESTART, s)"




section \<open>Serial transport (ttys.c)\<close>

definition TTYS_NUM_INSTANCES :: nat where
  "TTYS_NUM_INSTANCES = 3"

definition TTYS_RX_BUF_SIZE :: nat where
  "TTYS_RX_BUF_SIZE = 80"

definition TTYS_TX_BUF_SIZE :: nat where
  "TTYS_TX_BUF_SIZE = 1024"

record ttys_cfg =
  create_stream :: bool
  send_cr_after_nl :: bool

text \<open>\<open>struct ttys_state\<close>. Pointers are addresses, \<open>None\<close> for \<open>NULL\<close>.\<close>

record ttys_state =
  cfg :: ttys_cfg
  stream :: "nat option"
  fd :: int
  uart_reg_base :: "nat option"
  rx_buf_get_idx :: u16
  rx_buf_put_idx :: u16
  tx_buf_get_idx :: u16
  tx_buf_put_idx :: u16
  tx_buf :: "u8 list"
  rx_buf :: "u8 list"

text \<open>\<open>enum ttys_u16_pms\<close>: the indices into the counter array.\<close>

definition CNT_RX_UART_ORE :: nat where "CNT_RX_UART_ORE = 0"
definition CNT_RX_UART_NE :: nat where "CNT_RX_UART_NE = 1"
definition CNT_RX_UART_FE :: nat where "CNT_RX_UART_FE = 2"
definition CNT_RX_UART_PE :: nat where "CNT_RX_UART_PE = 3"
definition CNT_TX_BUF_OVERRUN :: nat where "CNT_TX_BUF_OVERRUN = 4"
definition CNT_RX_BUF_OVERRUN :: nat where "CNT_RX_BUF_OVERRUN = 5"
definition NUM_U16_PMS :: nat where "NUM_U16_PMS = 6"

text \<open>The static variables of the module: one state per instance, and one array of
  performance counters. The source says of the counters: "Currently these are common to
  all instances. A future enhancement would be to make them per-instance."\<close>

record ttys_mod =
  ttys_states :: "ttys_state list"
  cnts_u16 :: "u16 list"

text \<open>What the code does to the hardware, in order.\<close>

datatype uart_effect =
    DR_read
  | DR_write u8
  | EnableIT_TXE
  | DisableIT_TXE
  | NVIC_DisableIRQ nat
  | CPU_disable_irq
  | CPU_enable_irq

text \<open>The status register as the interrupt handler reads it. The masks
  \<open>LL_USART_SR_*\<close> are defined in the vendor header, which is not among the sources; the
  handler only tests single flags, so a read of \<open>SR\<close> is given by the outcome of each
  test.\<close>

record usart_sr =
  sr_RXNE :: bool
  sr_TXE :: bool
  sr_ORE :: bool
  sr_NE :: bool
  sr_FE :: bool
  sr_PE :: bool

definition ttys_putc :: "nat \<Rightarrow> u8 \<Rightarrow> ttys_mod \<Rightarrow> (mod_err + int) \<times> uart_effect list \<times> ttys_mod" where
  "ttys_putc instance_id c m =
     (if instance_id \<ge> TTYS_NUM_INSTANCES then (Inl MOD_ERR_BAD_INSTANCE, [], m)
      else
        let st = ttys_states m ! instance_id;
            next_put_idx0 = tx_buf_put_idx st + 1;
            next_put_idx = (if unat next_put_idx0 \<ge> TTYS_TX_BUF_SIZE then 0 else next_put_idx0)
        in
        if next_put_idx = tx_buf_get_idx st then
          (Inl MOD_ERR_BUF_OVERRUN, [],
           m\<lparr>cnts_u16 := (cnts_u16 m)[CNT_TX_BUF_OVERRUN :=
                INC_SAT_U16 (cnts_u16 m ! CNT_TX_BUF_OVERRUN)]\<rparr>)
        else
          let st' = st\<lparr>tx_buf := (tx_buf st)[unat (tx_buf_put_idx st) := c],
                       tx_buf_put_idx := next_put_idx\<rparr>
          in (Inr 0,
              (if uart_reg_base st' \<noteq> None
               then [CPU_disable_irq, EnableIT_TXE, CPU_enable_irq] else []),
              m\<lparr>ttys_states := (ttys_states m)[instance_id := st']\<rparr>))"

text \<open>\<open>ttys_getc\<close> returns the return code, the character written through \<open>c\<close> (if
  any) and the new state.\<close>

definition ttys_getc :: "nat \<Rightarrow> ttys_mod \<Rightarrow> (mod_err + int) \<times> u8 option \<times> ttys_mod" where
  "ttys_getc instance_id m =
     (if instance_id \<ge> TTYS_NUM_INSTANCES then (Inl MOD_ERR_BAD_INSTANCE, None, m)
      else
        let st = ttys_states m ! instance_id in
        if rx_buf_get_idx st = rx_buf_put_idx st then (Inr 0, None, m)
        else
          let next_get_idx0 = uint (rx_buf_get_idx st) + 1;
              next_get_idx = (if next_get_idx0 \<ge> int TTYS_RX_BUF_SIZE then 0 else next_get_idx0);
              c = rx_buf st ! unat (rx_buf_get_idx st);
              st' = st\<lparr>rx_buf_get_idx := word_of_int next_get_idx\<rparr>
          in (Inr 1, Some c, m\<lparr>ttys_states := (ttys_states m)[instance_id := st']\<rparr>))"

text \<open>The three blocks of \<open>ttys_interrupt\<close>, in the order of the source: receive,
  transmit, error flags. \<open>dr\<close> is the character read from the data register.\<close>

definition ttys_interrupt_rx ::
  "usart_sr \<Rightarrow> u8 \<Rightarrow> ttys_state \<times> u16 list \<Rightarrow> uart_effect list \<times> ttys_state \<times> u16 list" where
  "ttys_interrupt_rx sr dr x =
     (case x of (st, cnts) \<Rightarrow>
        if sr_RXNE sr then
          let next_rx_put_idx0 = rx_buf_put_idx st + 1;
              rx_data = dr;
              next_rx_put_idx =
                (if unat next_rx_put_idx0 \<ge> TTYS_RX_BUF_SIZE then 0 else next_rx_put_idx0)
          in
          if next_rx_put_idx = rx_buf_get_idx st then
            ([DR_read], st,
             cnts[CNT_RX_BUF_OVERRUN := INC_SAT_U16 (cnts ! CNT_RX_BUF_OVERRUN)])
          else
            ([DR_read],
             st\<lparr>rx_buf := (rx_buf st)[unat (rx_buf_put_idx st) := rx_data],
                rx_buf_put_idx := next_rx_put_idx\<rparr>,
             cnts)
        else ([], st, cnts))"

definition ttys_interrupt_tx :: "usart_sr \<Rightarrow> ttys_state \<Rightarrow> uart_effect list \<times> ttys_state" where
  "ttys_interrupt_tx sr st =
     (if sr_TXE sr then
        if tx_buf_get_idx st = tx_buf_put_idx st then ([DisableIT_TXE], st)
        else
          ([DR_write (tx_buf st ! unat (tx_buf_get_idx st))],
           (if unat (tx_buf_get_idx st) < TTYS_TX_BUF_SIZE - 1
            then st\<lparr>tx_buf_get_idx := tx_buf_get_idx st + 1\<rparr>
            else st\<lparr>tx_buf_get_idx := 0\<rparr>))
      else ([], st))"

definition ttys_interrupt_err :: "usart_sr \<Rightarrow> u16 list \<Rightarrow> uart_effect list \<times> u16 list" where
  "ttys_interrupt_err sr cnts =
     (if sr_ORE sr \<or> sr_NE sr \<or> sr_FE sr \<or> sr_PE sr then
        let c1 = (if sr_ORE sr
                  then cnts[CNT_RX_UART_ORE := INC_SAT_U16 (cnts ! CNT_RX_UART_ORE)] else cnts);
            c2 = (if sr_NE sr
                  then c1[CNT_RX_UART_NE := INC_SAT_U16 (c1 ! CNT_RX_UART_NE)] else c1);
            c3 = (if sr_FE sr
                  then c2[CNT_RX_UART_FE := INC_SAT_U16 (c2 ! CNT_RX_UART_FE)] else c2);
            c4 = (if sr_PE sr
                  then c3[CNT_RX_UART_PE := INC_SAT_U16 (c3 ! CNT_RX_UART_PE)] else c3)
        in ([DR_read], c4)
      else ([], cnts))"

definition ttys_interrupt ::
  "nat \<Rightarrow> nat \<Rightarrow> usart_sr \<Rightarrow> u8 \<Rightarrow> ttys_mod \<Rightarrow> uart_effect list \<times> ttys_mod" where
  "ttys_interrupt instance_id irq_type sr dr m =
     (if instance_id \<ge> TTYS_NUM_INSTANCES then ([], m)
      else
        let st = ttys_states m ! instance_id in
        if uart_reg_base st = None then ([NVIC_DisableIRQ irq_type], m)
        else
          (case ttys_interrupt_rx sr dr (st, cnts_u16 m) of (e1, st1, cnts1) \<Rightarrow>
           case ttys_interrupt_tx sr st1 of (e2, st2) \<Rightarrow>
           case ttys_interrupt_err sr cnts1 of (e3, cnts3) \<Rightarrow>
             (e1 @ e2 @ e3,
              m\<lparr>ttys_states := (ttys_states m)[instance_id := st2], cnts_u16 := cnts3\<rparr>)))"

text \<open>The file descriptors of the instances (\<open>UART1_FD\<close>, \<open>UART2_FD\<close>, \<open>UART6_FD\<close>) and
  \<open>fd_to_instance\<close>. Standard output is file descriptor 1, the second instance. The third
  instance is \<open>TTYS_INSTANCE_UART6\<close> in ttys.c; the header among the sources calls it
  \<open>TTYS_INSTANCE_UART3\<close>.\<close>

definition UART1_FD :: int where "UART1_FD = 4"
definition UART2_FD :: int where "UART2_FD = 1"
definition UART6_FD :: int where "UART6_FD = 3"

definition TTYS_INSTANCE_UART1 :: nat where "TTYS_INSTANCE_UART1 = 0"
definition TTYS_INSTANCE_UART2 :: nat where "TTYS_INSTANCE_UART2 = 1"
definition TTYS_INSTANCE_UART6 :: nat where "TTYS_INSTANCE_UART6 = 2"

definition fd_to_instance :: "int \<Rightarrow> nat" where
  "fd_to_instance fd' =
     (if fd' = UART6_FD then TTYS_INSTANCE_UART6
      else if fd' = UART1_FD then TTYS_INSTANCE_UART1
      else if fd' = UART2_FD then TTYS_INSTANCE_UART2
      else TTYS_NUM_INSTANCES)"

text \<open>The loop of \<open>_write\<close> over the characters: \<open>ttys_putc\<close> for each, and a carriage
  return after a line feed if the instance is configured so. The return values of
  \<open>ttys_putc\<close> are dropped, as in the source.\<close>

fun write_loop :: "nat \<Rightarrow> u8 list \<Rightarrow> uart_effect list \<times> ttys_mod \<Rightarrow> uart_effect list \<times> ttys_mod" where
  "write_loop instance_id [] x = x"
| "write_loop instance_id (c # cs) x =
     (case x of (e, m) \<Rightarrow>
      case ttys_putc instance_id c m of (rc1, e1, m1) \<Rightarrow>
        if c = 10 \<and> send_cr_after_nl (cfg (ttys_states m1 ! instance_id)) then
          (case ttys_putc instance_id 13 m1 of (rc2, e2, m2) \<Rightarrow>
             write_loop instance_id cs (e @ e1 @ e2, m2))
        else write_loop instance_id cs (e @ e1, m1))"

text \<open>The system call function \<open>_write\<close> of ttys.c (a name cannot start with an
  underscore here): the return value, what was done to the hardware, and the new state.
  \<open>errno\<close> is not modelled.\<close>

definition ttys_write :: "int \<Rightarrow> u8 list \<Rightarrow> ttys_mod \<Rightarrow> int \<times> uart_effect list \<times> ttys_mod" where
  "ttys_write file ptr m =
     (let instance_id = fd_to_instance file in
      if instance_id \<ge> TTYS_NUM_INSTANCES then (- 1, [], m)
      else (case write_loop instance_id ptr ([], m) of (e, m') \<Rightarrow> (int (length ptr), e, m')))"

text \<open>Sequences of calls on one instance: \<open>ttys_putc\<close> for each character of a list,
  \<open>ttys_getc\<close> \<open>n\<close> times, and one interrupt for each status/data read of a list.\<close>

fun ttys_putc_all :: "nat \<Rightarrow> u8 list \<Rightarrow> ttys_mod \<Rightarrow> (mod_err + int) list \<times> ttys_mod" where
  "ttys_putc_all instance_id [] m = ([], m)"
| "ttys_putc_all instance_id (c # cs) m =
     (case ttys_putc instance_id c m of (rc, e, m1) \<Rightarrow>
      case ttys_putc_all instance_id cs m1 of (rcs, m2) \<Rightarrow> (rc # rcs, m2))"

fun ttys_getc_n :: "nat \<Rightarrow> nat \<Rightarrow> ttys_mod \<Rightarrow> ((mod_err + int) \<times> u8 option) list \<times> ttys_mod" where
  "ttys_getc_n instance_id 0 m = ([], m)"
| "ttys_getc_n instance_id (Suc n) m =
     (case ttys_getc instance_id m of (rc, c, m1) \<Rightarrow>
      case ttys_getc_n instance_id n m1 of (rs, m2) \<Rightarrow> ((rc, c) # rs, m2))"

fun ttys_interrupt_all ::
  "nat \<Rightarrow> nat \<Rightarrow> (usart_sr \<times> u8) list \<Rightarrow> ttys_mod \<Rightarrow> uart_effect list \<times> ttys_mod" where
  "ttys_interrupt_all instance_id irq_type [] m = ([], m)"
| "ttys_interrupt_all instance_id irq_type (x # xs) m =
     (case ttys_interrupt instance_id irq_type (fst x) (snd x) m of (e1, m1) \<Rightarrow>
      case ttys_interrupt_all instance_id irq_type xs m1 of (e2, m2) \<Rightarrow> (e1 @ e2, m2))"

text \<open>The characters written to the data register, in order.\<close>

fun dr_writes :: "uart_effect list \<Rightarrow> u8 list" where
  "dr_writes [] = []"
| "dr_writes (DR_write c # es) = c # dr_writes es"
| "dr_writes (e # es) = dr_writes es"

text \<open>The state the module works on: arrays of their declared sizes, indices inside
  their buffers (what \<open>ttys_init\<close> establishes and every operation keeps).\<close>

definition ttys_state_ok :: "ttys_state \<Rightarrow> bool" where
  "ttys_state_ok st =
     (length (tx_buf st) = TTYS_TX_BUF_SIZE \<and> length (rx_buf st) = TTYS_RX_BUF_SIZE \<and>
      unat (tx_buf_get_idx st) < TTYS_TX_BUF_SIZE \<and> unat (tx_buf_put_idx st) < TTYS_TX_BUF_SIZE \<and>
      unat (rx_buf_get_idx st) < TTYS_RX_BUF_SIZE \<and> unat (rx_buf_put_idx st) < TTYS_RX_BUF_SIZE)"

definition ttys_mod_ok :: "ttys_mod \<Rightarrow> bool" where
  "ttys_mod_ok m =
     (length (ttys_states m) = TTYS_NUM_INSTANCES \<and> length (cnts_u16 m) = NUM_U16_PMS \<and>
      list_all ttys_state_ok (ttys_states m))"

text \<open>The queue a ring buffer holds: the entries from the get index up to the put index,
  wrapping at the end of the array.\<close>

definition ring_seq :: "'a list \<Rightarrow> nat \<Rightarrow> nat \<Rightarrow> 'a list" where
  "ring_seq buf g p =
     map (\<lambda>k. buf ! ((g + k) mod length buf)) [0..<(p + length buf - g) mod length buf]"

definition tx_seq :: "ttys_state \<Rightarrow> u8 list" where
  "tx_seq st = ring_seq (tx_buf st) (unat (tx_buf_get_idx st)) (unat (tx_buf_put_idx st))"

definition rx_seq :: "ttys_state \<Rightarrow> u8 list" where
  "rx_seq st = ring_seq (rx_buf st) (unat (rx_buf_get_idx st)) (unat (rx_buf_put_idx st))"

text \<open>States used to exercise the operations: every instance open, its rings with the
  given get and put indices, all buffers zeroed, every counter at the given value.\<close>

definition ttys_test_state :: "u16 \<Rightarrow> u16 \<Rightarrow> u16 \<Rightarrow> u16 \<Rightarrow> ttys_state" where
  "ttys_test_state txg txp rxg rxp =
     \<lparr>cfg = \<lparr>create_stream = True, send_cr_after_nl = True\<rparr>,
      stream = None, fd = 1, uart_reg_base = Some 0x40004400,
      rx_buf_get_idx = rxg, rx_buf_put_idx = rxp,
      tx_buf_get_idx = txg, tx_buf_put_idx = txp,
      tx_buf = replicate TTYS_TX_BUF_SIZE 0, rx_buf = replicate TTYS_RX_BUF_SIZE 0\<rparr>"

definition ttys_test_mod :: "u16 \<Rightarrow> u16 \<Rightarrow> u16 \<Rightarrow> u16 \<Rightarrow> u16 \<Rightarrow> ttys_mod" where
  "ttys_test_mod txg txp rxg rxp cnt =
     \<lparr>ttys_states = replicate TTYS_NUM_INSTANCES (ttys_test_state txg txp rxg rxp),
      cnts_u16 = replicate NUM_U16_PMS cnt\<rparr>"

text \<open>Status reads with only the transmit-ready or only the receive-ready flag set.\<close>

definition sr_only_TXE :: usart_sr where
  "sr_only_TXE = \<lparr>sr_RXNE = False, sr_TXE = True, sr_ORE = False, sr_NE = False,
     sr_FE = False, sr_PE = False\<rparr>"

definition sr_only_RXNE :: usart_sr where
  "sr_only_RXNE = \<lparr>sr_RXNE = True, sr_TXE = False, sr_ORE = False, sr_NE = False,
     sr_FE = False, sr_PE = False\<rparr>"

section \<open>Command engine (cmd.c)\<close>

subsection \<open>The C library functions the module calls\<close>

text \<open>The C library is not part of the repository. The following definitions give the
  functions of \<open>ctype.h\<close>, \<open>string.h\<close> and \<open>stdlib.h\<close> that cmd.c calls their ISO C
  meaning in the "C" locale, on the contents of NUL-terminated strings (a \<open>string\<close> is
  the characters before the terminator), with the 32-bit \<open>long\<close> of the target.\<close>

definition isspace :: "char \<Rightarrow> bool" where
  "isspace c = (c = CHR '' '' \<or> (9 \<le> (of_char c :: nat) \<and> (of_char c :: nat) \<le> 13))"

definition tolower :: "char \<Rightarrow> char" where
  "tolower c =
     (if 65 \<le> (of_char c :: nat) \<and> (of_char c :: nat) \<le> 90
      then (case c of Char b0 b1 b2 b3 b4 b5 b6 b7 \<Rightarrow> Char b0 b1 b2 b3 b4 True b6 b7)
      else c)"

fun strcmp :: "string \<Rightarrow> string \<Rightarrow> int" where
  "strcmp [] [] = 0"
| "strcmp [] (y # ys) = - int (of_char y)"
| "strcmp (x # xs) [] = int (of_char x)"
| "strcmp (x # xs) (y # ys) =
     (if x = y then strcmp xs ys else int (of_char x) - int (of_char y))"

fun strcasecmp :: "string \<Rightarrow> string \<Rightarrow> int" where
  "strcasecmp [] [] = 0"
| "strcasecmp [] (y # ys) = - int (of_char (tolower y))"
| "strcasecmp (x # xs) [] = int (of_char (tolower x))"
| "strcasecmp (x # xs) (y # ys) =
     (if tolower x = tolower y then strcasecmp xs ys
      else int (of_char (tolower x)) - int (of_char (tolower y)))"

text \<open>The value of a digit character, 36 for a character that is no digit in any base.\<close>

definition digit_val :: "char \<Rightarrow> nat" where
  "digit_val c =
     (let n = (of_char c :: nat) in
      if 48 \<le> n \<and> n \<le> 57 then n - 48
      else if 97 \<le> n \<and> n \<le> 122 then n - 87
      else if 65 \<le> n \<and> n \<le> 90 then n - 55
      else 36)"

fun strto_digits :: "nat \<Rightarrow> string \<Rightarrow> nat \<Rightarrow> nat \<times> string" where
  "strto_digits base [] acc = (acc, [])"
| "strto_digits base (c # cs) acc =
     (if digit_val c < base then strto_digits base cs (acc * base + digit_val c)
      else (acc, c # cs))"

text \<open>The subject sequence of \<open>strtol\<close> and \<open>strtoul\<close>: white space, an optional
  sign, for base 0 or 16 an optional \<open>0x\<close>, then the digits of the base (base 0: 16 after
  \<open>0x\<close>, 8 after \<open>0\<close>, else 10). The result is the sign, the magnitude and the rest of
  the string that \<open>endptr\<close> points to, which is the whole string when there is no
  digit.\<close>

definition strto_subject :: "string \<Rightarrow> nat \<Rightarrow> bool \<times> nat \<times> string" where
  "strto_subject nptr base =
     (let s1 = dropWhile isspace nptr;
          neg = (s1 \<noteq> [] \<and> hd s1 = CHR ''-'');
          s2 = (if s1 \<noteq> [] \<and> (hd s1 = CHR ''-'' \<or> hd s1 = CHR ''+'') then tl s1 else s1);
          hex = ((base = 0 \<or> base = 16) \<and> 3 \<le> length s2 \<and> s2 ! 0 = CHR ''0'' \<and>
                 (s2 ! 1 = CHR ''x'' \<or> s2 ! 1 = CHR ''X'') \<and> digit_val (s2 ! 2) < 16);
          b = (if hex then 16
               else if base = 0 then (if s2 \<noteq> [] \<and> hd s2 = CHR ''0'' then 8 else 10)
               else base);
          s3 = (if hex then drop 2 s2 else s2)
      in case strto_digits b s3 0 of
           (n, rest) \<Rightarrow> if rest = s3 then (False, 0, nptr) else (neg, n, rest))"

definition strtoul :: "string \<Rightarrow> nat \<Rightarrow> u32 \<times> string" where
  "strtoul nptr base =
     (case strto_subject nptr base of
        (neg, n, rest) \<Rightarrow>
          ((if n > 4294967295 then 0xFFFFFFFF else if neg then - of_nat n else of_nat n),
           rest))"

definition strtol :: "string \<Rightarrow> nat \<Rightarrow> int \<times> string" where
  "strtol nptr base =
     (case strto_subject nptr base of
        (neg, n, rest) \<Rightarrow>
          ((if neg then (if n > 2147483648 then - 2147483648 else - int n)
            else (if n > 2147483647 then 2147483647 else int n)),
           rest))"

text \<open>\<open>printf\<close> with \<open>%d\<close> or \<open>%u\<close> of a value that is not negative.\<close>

function show_dec :: "nat \<Rightarrow> string" where
  "show_dec n =
     (if n < 10 then [''0123456789'' ! n]
      else show_dec (n div 10) @ [''0123456789'' ! (n mod 10)])"
  by pat_completeness auto
termination
  by (relation "measure id") auto

declare show_dec.simps [simp del]

subsection \<open>Data of the module\<close>

definition CMD_MAX_CLIENTS :: nat where
  "CMD_MAX_CLIENTS = 10"

definition MAX_CMD_TOKENS :: nat where
  "MAX_CMD_TOKENS = 10"

text \<open>\<open>struct cmd_cmd_info\<close>: the fields \<open>name\<close>, \<open>func\<close> (a function pointer, here
  the address) and \<open>help\<close>.\<close>

record cmd_cmd_info =
  cmd_name :: string
  cmd_func :: nat
  cmd_help :: string

text \<open>The address of a 16-bit performance counter: an element of the array \<open>cnts_u16\<close>
  of ttys.c, which that module registers as its \<open>u16_pms\<close>, or another \<open>uint16_t\<close>
  object.\<close>

datatype u16_ptr = Ttys_cnt nat | U16_obj nat

text \<open>\<open>struct cmd_client_info\<close>. The arrays are lists and the counts are their lengths
  (\<open>num_cmds\<close> is \<open>ARRAY_SIZE(cmds)\<close> in the clients): \<open>cmds\<close> with \<open>num_cmds\<close>, and
  \<open>u16_pms\<close> with \<open>num_u16_pms\<close>, where each performance counter is given by its name
  (\<open>u16_pm_names[i]\<close>) and its address (\<open>&u16_pms[i]\<close>). \<open>log_level_ptr\<close> is the address
  of the client's log level or \<open>None\<close> for \<open>NULL\<close>.\<close>

record cmd_client_info =
  name :: string
  cmds :: "cmd_cmd_info list"
  log_level_ptr :: "nat option"
  u16_pms :: "(string \<times> u16_ptr) list"

definition num_cmds :: "cmd_client_info \<Rightarrow> int" where
  "num_cmds ci = int (length (cmds ci))"

definition num_u16_pms :: "cmd_client_info \<Rightarrow> int" where
  "num_u16_pms ci = int (length (u16_pms ci))"

text \<open>What the command engine reads and writes outside its own registry: the log-level
  variables and the performance counters of the clients, by address, and, through
  \<open>printf\<close>, the serial transport (the static variables of ttys.c, whose counters are
  performance counters too) and its hardware.\<close>

record cmd_world =
  i32_mem :: "nat \<Rightarrow> int"
  u16_mem :: "nat \<Rightarrow> u16"
  tty :: ttys_mod
  uart :: "uart_effect list"

text \<open>Reading and writing a performance counter through its address.\<close>

definition u16_load :: "cmd_world \<Rightarrow> u16_ptr \<Rightarrow> u16" where
  "u16_load w p =
     (case p of Ttys_cnt i \<Rightarrow> cnts_u16 (tty w) ! i | U16_obj a \<Rightarrow> u16_mem w a)"

definition u16_store :: "u16_ptr \<Rightarrow> u16 \<Rightarrow> cmd_world \<Rightarrow> cmd_world" where
  "u16_store p v w =
     (case p of
        Ttys_cnt i \<Rightarrow> w\<lparr>tty := (tty w)\<lparr>cnts_u16 := (cnts_u16 (tty w))[i := v]\<rparr>\<rparr>
      | U16_obj a \<Rightarrow> w\<lparr>u16_mem := (u16_mem w)(a := v)\<rparr>)"

text \<open>A command handler gets \<open>argc\<close> and \<open>argv\<close> and may do anything to the world.\<close>

type_synonym cmd_func = "int \<Rightarrow> string list \<Rightarrow> cmd_world \<Rightarrow> int \<times> cmd_world"

text \<open>\<open>printf\<close>, given the formatted text. Standard output is unbuffered
  (\<open>setvbuf(stdout, NULL, _IONBF, 0)\<close> in app_main.c), so the text is handed to \<open>_write\<close>
  with file descriptor 1 before \<open>printf\<close> returns: it goes into the transmit ring of the
  console instance, and the characters that find the ring full are dropped and counted.
  cmd.c does not use the value that \<open>printf\<close> returns.\<close>

definition printf :: "string \<Rightarrow> cmd_world \<Rightarrow> cmd_world" where
  "printf s w =
     (case ttys_write 1 (map (\<lambda>c. of_nat (of_char c)) s) (tty w) of
        (rc, e, m) \<Rightarrow> w\<lparr>tty := m, uart := uart w @ e\<rparr>)"

definition log_level_names :: "string list" where
  "log_level_names = [''off'', ''error'', ''warning'', ''info'', ''debug'', ''trace'']"

definition LOG_LEVEL_NAMES :: string where
  "LOG_LEVEL_NAMES = ''off, error, warning, info, debug, trace''"

text \<open>The comparison \<open>level < ARRAY_SIZE(log_level_names)\<close> is unsigned, so a negative
  level is "INVALID".\<close>

definition log_level_str :: "int \<Rightarrow> string" where
  "log_level_str level =
     (if 0 \<le> level \<and> level < int (length log_level_names) then log_level_names ! nat level
      else ''INVALID'')"

fun log_level_int_from :: "string \<Rightarrow> string list \<Rightarrow> int \<Rightarrow> int" where
  "log_level_int_from level_name [] level = - 1"
| "log_level_int_from level_name (n # ns) level =
     (if strcasecmp level_name n = 0 then level
      else log_level_int_from level_name ns (level + 1))"

definition log_level_int :: "string \<Rightarrow> int" where
  "log_level_int level_name = log_level_int_from level_name log_level_names 0"

subsection \<open>Registration\<close>

definition cmd_init :: "cmd_client_info option list" where
  "cmd_init = replicate CMD_MAX_CLIENTS None"

function cmd_register_from ::
  "nat \<Rightarrow> cmd_client_info \<Rightarrow> cmd_client_info option list \<Rightarrow>
   (mod_err + int) \<times> cmd_client_info option list" where
  "cmd_register_from idx ci client_info =
     (if idx < CMD_MAX_CLIENTS then
        (if (case client_info ! idx of None \<Rightarrow> True
             | Some c \<Rightarrow> strcasecmp (name c) (name ci) = 0)
         then (Inr 0, client_info[idx := Some ci])
         else cmd_register_from (idx + 1) ci client_info)
      else (Inl MOD_ERR_RESOURCE, client_info))"
  by pat_completeness auto
termination
  by (relation "measure (\<lambda>(idx, ci, client_info). CMD_MAX_CLIENTS - idx)") auto

declare cmd_register_from.simps [simp del]

definition cmd_register ::
  "cmd_client_info \<Rightarrow> cmd_client_info option list \<Rightarrow>
   (mod_err + int) \<times> cmd_client_info option list" where
  "cmd_register ci client_info = cmd_register_from 0 ci client_info"

text \<open>The clients that the loops \<open>for (idx = 0; idx < CMD_MAX_CLIENTS && client_info[idx]
  != NULL; idx++)\<close> visit, in order.\<close>

definition cmd_clients :: "cmd_client_info option list \<Rightarrow> cmd_client_info list" where
  "cmd_clients client_info =
     map the (takeWhile (\<lambda>c. c \<noteq> None) (take CMD_MAX_CLIENTS client_info))"

subsection \<open>Executing a command line\<close>

text \<open>The tokenizer loop of \<open>cmd_execute\<close>: \<open>p\<close> is the rest of the line, \<open>tokens\<close> the
  tokens found so far. The source writes the terminators into the line; the tokens are the
  same.\<close>

function cmd_tokenize :: "string \<Rightarrow> string list \<Rightarrow> mod_err + string list" where
  "cmd_tokenize p tokens =
     (let p1 = dropWhile isspace p in
      if p1 = [] then Inr tokens
      else if length tokens \<ge> MAX_CMD_TOKENS then Inl MOD_ERR_BAD_CMD
      else
        let tok = takeWhile (\<lambda>c. \<not> isspace c) p1;
            p2 = dropWhile (\<lambda>c. \<not> isspace c) p1
        in if p2 \<noteq> [] then cmd_tokenize (tl p2) (tokens @ [tok])
           else Inr (tokens @ [tok]))"
  by pat_completeness auto
termination
proof (relation "measure (\<lambda>(p, tokens). length p)")
  show "wf (measure (\<lambda>(p, tokens). length p))"
    by simp
next
  fix p :: string and tokens :: "string list" and x xa xb
  assume "x = dropWhile isspace p" and "xb = dropWhile (\<lambda>c. \<not> isspace c) x" and "xb \<noteq> []"
  then have "length (tl xb) < length xb" and "length xb \<le> length x" and "length x \<le> length p"
    by (simp_all add: length_dropWhile_le)
  then show "((tl xb, tokens @ [xa]), (p, tokens)) \<in> measure (\<lambda>(p, tokens). length p)"
    by simp
qed

declare cmd_tokenize.simps [simp del]

text \<open>The wild card commands (first token \<open>*\<close>).\<close>

definition cmd_execute_wildcard ::
  "cmd_client_info list \<Rightarrow> string list \<Rightarrow> cmd_world \<Rightarrow> (mod_err + int) \<times> cmd_world" where
  "cmd_execute_wildcard clients tokens w =
     (let num_tokens = length tokens in
      if num_tokens < 2 then (Inl MOD_ERR_BAD_CMD, printf ''Wildcard missing command\<newline>'' w)
      else if strcasecmp (tokens ! 1) ''log'' = 0 then
        (if num_tokens = 3 \<and> log_level_int (tokens ! 2) < 0 then
           (Inl MOD_ERR_ARG, printf (''Invalid log level: '' @ tokens ! 2 @ ''\<newline>'') w)
         else if num_tokens > 3 then
           (Inl MOD_ERR_ARG, printf ''Invalid arguments\<newline>'' w)
         else
           (Inr 0,
            fold (\<lambda>ci w.
                    case log_level_ptr ci of
                      None \<Rightarrow> w
                    | Some ptr \<Rightarrow>
                        if num_tokens = 3
                        then w\<lparr>i32_mem := (i32_mem w)(ptr := log_level_int (tokens ! 2))\<rparr>
                        else printf (''Log level for '' @ name ci @ '' = '' @
                               log_level_str (i32_mem w ptr) @ ''\<newline>'') w)
              clients w))
      else (Inr 0, w))"

text \<open>The top-level help (first token \<open>help\<close> or \<open>?\<close>). After the loop over the commands
  \<open>idx2\<close> is \<open>num_cmds\<close>, which is not 0 here, so the separator before \<open>log\<close> and
  \<open>pm\<close> is always printed.\<close>

definition cmd_execute_help ::
  "cmd_client_info list \<Rightarrow> cmd_world \<Rightarrow> (mod_err + int) \<times> cmd_world" where
  "cmd_execute_help clients w =
     (Inr 0,
      printf (''\<newline>Log levels are: '' @ LOG_LEVEL_NAMES @ ''\<newline>'')
        (fold (\<lambda>ci w.
                 if num_cmds ci = 0 then w
                 else
                   printf (name ci @ '' ('' @
                     concat (map (\<lambda>idx2. (if idx2 = 0 then [] else '', '') @
                                   cmd_name (cmds ci ! idx2)) [0..<length (cmds ci)]) @
                     (if log_level_ptr ci \<noteq> None then '', log'' else []) @
                     (if num_u16_pms ci > 0 then '', pm'' else []) @
                     '')\<newline>'') w)
           clients w))"

text \<open>The commands of one client \<open>ci\<close>, the one whose name matches the first token. The
  module's own \<open>log_debug\<close> calls print nothing: the log level of cmd.c is the constant
  \<open>LOG_DEFAULT\<close>, below \<open>LOG_DEBUG\<close>. The return value of the handler is dropped by the
  source, which returns 0.\<close>

definition cmd_execute_client ::
  "(nat \<Rightarrow> cmd_func) \<Rightarrow> cmd_client_info \<Rightarrow> string list \<Rightarrow> cmd_world \<Rightarrow>
   (mod_err + int) \<times> cmd_world" where
  "cmd_execute_client funcs ci tokens w =
     (let num_tokens = length tokens;
          tokens1 = (if num_tokens = 1 then [] else tokens ! 1)
      in
      if strcasecmp tokens1 ''help'' = 0 \<or> strcasecmp tokens1 ''?'' = 0 then
        (Inr 0,
         printf
           (concat (map (\<lambda>cci. name ci @ '' '' @ cmd_name cci @ '': '' @ cmd_help cci @
                           ''\<newline>'') (cmds ci)) @
            (if log_level_ptr ci \<noteq> None
             then name ci @ '' log: set or get log level, args: [level]\<newline>'' else []) @
            (if num_u16_pms ci > 0
             then name ci @ '' pm: get or clear performance measurements, args: [clear]\<newline>''
             else []) @
            (if log_level_ptr ci \<noteq> None
             then ''\<newline>Log levels are: '' @ LOG_LEVEL_NAMES @ ''\<newline>'' else [])) w)
      else if strcasecmp tokens1 ''log'' = 0 then
        (case log_level_ptr ci of
           None \<Rightarrow> (Inr 0, w)
         | Some ptr \<Rightarrow>
             if num_tokens < 3 then
               (Inr 0, printf (''Log level for '' @ name ci @ '' = '' @
                          log_level_str (i32_mem w ptr) @ ''\<newline>'') w)
             else if log_level_int (tokens ! 2) < 0 then
               (Inl MOD_ERR_ARG, printf (''Invalid log level: '' @ tokens ! 2 @ ''\<newline>'') w)
             else (Inr 0, w\<lparr>i32_mem := (i32_mem w)(ptr := log_level_int (tokens ! 2))\<rparr>))
      else if strcasecmp tokens1 ''pm'' = 0 then
        (let clear = (num_tokens \<ge> 3 \<and> strcasecmp (tokens ! 2) ''clear'' = 0) in
         if num_u16_pms ci > 0 then
           (Inr 0,
            fold (\<lambda>pm w.
                    if clear then u16_store (snd pm) 0 w
                    else printf (''  '' @ fst pm @ '': '' @ show_dec (unat (u16_load w (snd pm))) @
                           ''\<newline>'') w)
              (u16_pms ci)
              (printf (if clear then ''Clearing performance measurements for '' @ name ci @
                         ''\<newline>''
                       else name ci @ '':\<newline>'') w))
         else (Inr 0, w))
      else
        (case find (\<lambda>cci. strcasecmp tokens1 (cmd_name cci) = 0) (cmds ci) of
           Some cci \<Rightarrow> (Inr 0, snd (funcs (cmd_func cci) (int num_tokens) tokens w))
         | None \<Rightarrow>
             (Inl MOD_ERR_BAD_CMD,
              printf (''No such command ('' @ tokens ! 0 @ '' '' @ tokens1 @ '')\<newline>'') w)))"

definition cmd_execute ::
  "(nat \<Rightarrow> cmd_func) \<Rightarrow> cmd_client_info option list \<Rightarrow> string \<Rightarrow> cmd_world \<Rightarrow>
   (mod_err + int) \<times> cmd_world" where
  "cmd_execute funcs client_info bfr w =
     (case cmd_tokenize bfr [] of
        Inl e \<Rightarrow> (Inl e, printf ''Too many tokens\<newline>'' w)
      | Inr tokens \<Rightarrow>
          if length tokens = 0 then (Inr 0, w)
          else if strcmp ''*'' (tokens ! 0) = 0 then
            cmd_execute_wildcard (cmd_clients client_info) tokens w
          else if strcasecmp ''help'' (tokens ! 0) = 0 \<or> strcasecmp ''?'' (tokens ! 0) = 0 then
            cmd_execute_help (cmd_clients client_info) w
          else
            (case find (\<lambda>ci. strcasecmp (tokens ! 0) (name ci) = 0) (cmd_clients client_info) of
               Some ci \<Rightarrow> cmd_execute_client funcs ci tokens w
             | None \<Rightarrow>
                 (Inl MOD_ERR_BAD_CMD,
                  printf (''No such command ('' @ tokens ! 0 @ '')\<newline>'') w)))"

subsection \<open>Parsing command arguments\<close>

text \<open>\<open>struct cmd_arg_val\<close>: the type letter and the member of the union that is set.\<close>

datatype cmd_arg_val = Arg_i int | Arg_u u32 | Arg_p u32 | Arg_s string

text \<open>\<open>argv\<close> is a pointer into an array of string pointers: index \<open>k\<close> gives
  \<open>argv[k]\<close>, \<open>None\<close> for \<open>NULL\<close>. The array of a token list:\<close>

definition argv_of :: "string list \<Rightarrow> nat \<Rightarrow> string option" where
  "argv_of tokens k = (if k < length tokens then Some (tokens ! k) else None)"

text \<open>The loop of \<open>cmd_parse_args\<close> over the format. \<open>argv\<close> and \<open>arg_vals\<close> advance
  together with \<open>arg_cnt\<close>, so the current argument is \<open>argv arg_cnt\<close> and the values
  written so far are the list \<open>vals\<close>. The result is the text printed and the return
  value, with the values on success. (On an error the source has written the values of
  the arguments before the offending one; callers do not use them.)\<close>

fun cmd_parse_args_loop ::
  "int \<Rightarrow> (nat \<Rightarrow> string option) \<Rightarrow> string \<Rightarrow> nat \<Rightarrow> bool \<Rightarrow> cmd_arg_val list \<Rightarrow>
   string \<times> (mod_err + int \<times> cmd_arg_val list)" where
  "cmd_parse_args_loop argc argv [] arg_cnt opt_args vals =
     (if int arg_cnt < argc then (''Too many arguments\<newline>'', Inl MOD_ERR_BAD_CMD)
      else ([], Inr (int arg_cnt, vals)))"
| "cmd_parse_args_loop argc argv (f # fmt) arg_cnt opt_args vals =
     (if f = CHR ''['' then cmd_parse_args_loop argc argv fmt arg_cnt True vals
      else if f = CHR '']'' then cmd_parse_args_loop argc argv fmt arg_cnt opt_args vals
      else if int arg_cnt \<ge> argc then
        (if opt_args then ([], Inr (int arg_cnt, vals))
         else (''Insufficient arguments\<newline>'', Inl MOD_ERR_BAD_CMD))
      else
        (case argv arg_cnt of
           None \<Rightarrow> (''Invalid empty arguments\<newline>'', Inl MOD_ERR_BAD_CMD)
         | Some arg \<Rightarrow>
             if arg = [] then (''Invalid empty arguments\<newline>'', Inl MOD_ERR_BAD_CMD)
             else if f = CHR ''i'' then
               (case strtol arg 0 of
                  (v, endptr) \<Rightarrow>
                    if endptr \<noteq> [] then
                      (''Argument '' @ [CHR 0x27] @ arg @ [CHR 0x27] @
                         '' not a valid integer\<newline>'', Inl MOD_ERR_ARG)
                    else cmd_parse_args_loop argc argv fmt (arg_cnt + 1) False
                           (vals @ [Arg_i v]))
             else if f = CHR ''u'' then
               (case strtoul arg 0 of
                  (v, endptr) \<Rightarrow>
                    if endptr \<noteq> [] then
                      (''Argument '' @ [CHR 0x27] @ arg @ [CHR 0x27] @
                         '' not a valid unsigned integer\<newline>'', Inl MOD_ERR_ARG)
                    else cmd_parse_args_loop argc argv fmt (arg_cnt + 1) False
                           (vals @ [Arg_u v]))
             else if f = CHR ''p'' then
               (case strtoul arg 16 of
                  (v, endptr) \<Rightarrow>
                    if endptr \<noteq> [] then
                      (''Argument '' @ [CHR 0x27] @ arg @ [CHR 0x27] @
                         '' not a valid pointer\<newline>'', Inl MOD_ERR_ARG)
                    else cmd_parse_args_loop argc argv fmt (arg_cnt + 1) False
                           (vals @ [Arg_p v]))
             else if f = CHR ''s'' then
               cmd_parse_args_loop argc argv fmt (arg_cnt + 1) False (vals @ [Arg_s arg])
             else
               (''Bad argument format '' @ [CHR 0x27] @ [f] @ [CHR 0x27] @ ''\<newline>'',
                Inl MOD_ERR_ARG)))"

definition cmd_parse_args ::
  "int \<Rightarrow> (nat \<Rightarrow> string option) \<Rightarrow> string \<Rightarrow> string \<times> (mod_err + int \<times> cmd_arg_val list)" where
  "cmd_parse_args argc argv fmt = cmd_parse_args_loop argc argv fmt 0 False []"

text \<open>A token that \<open>strtoul\<close> with base 0 converts completely.\<close>

definition valid_unsigned :: "string \<Rightarrow> bool" where
  "valid_unsigned tok = (tok \<noteq> [] \<and> snd (strtoul tok 0) = [])"

text \<open>A registry used to exercise the engine: the client \<open>tmr\<close> as tmr.c registers it
  (commands \<open>status\<close> and \<open>test\<close>, a log level at address 100, no performance counters),
  and a client \<open>aux\<close> without log level and counters that registers commands named
  \<open>log\<close>, \<open>pm\<close> and \<open>run\<close>. Every handler prints a line and sets the log level at
  address 100 to 5.\<close>

definition example_handler :: cmd_func where
  "example_handler argc argv w =
     (0, printf ''handler called\<newline>'' (w\<lparr>i32_mem := (i32_mem w)(100 := 5)\<rparr>))"

definition example_tmr_client :: cmd_client_info where
  "example_tmr_client =
     \<lparr>name = ''tmr'',
      cmds = [\<lparr>cmd_name = ''status'', cmd_func = 1,
                cmd_help = ''Get module status, usage: tmr status''\<rparr>,
              \<lparr>cmd_name = ''test'', cmd_func = 2,
                cmd_help = ''Run test, usage: tmr test [<op> [<arg1> [<arg2>]]] (enter no op/args for help)''\<rparr>],
      log_level_ptr = Some 100,
      u16_pms = []\<rparr>"

definition example_aux_client :: cmd_client_info where
  "example_aux_client =
     \<lparr>name = ''aux'',
      cmds = [\<lparr>cmd_name = ''log'', cmd_func = 3, cmd_help = ''own log command''\<rparr>,
              \<lparr>cmd_name = ''pm'', cmd_func = 4, cmd_help = ''own pm command''\<rparr>,
              \<lparr>cmd_name = ''run'', cmd_func = 5, cmd_help = ''run''\<rparr>],
      log_level_ptr = None,
      u16_pms = []\<rparr>"

text \<open>The client \<open>ttys\<close> as ttys.c registers it: the commands \<open>status\<close> and \<open>test\<close>, a
  log level (here at address 101), and the counters \<open>cnts_u16\<close> with their names.\<close>

definition example_ttys_client :: cmd_client_info where
  "example_ttys_client =
     \<lparr>name = ''ttys'',
      cmds = [\<lparr>cmd_name = ''status'', cmd_func = 6,
                cmd_help = ''Get module status, usage: ttys status''\<rparr>,
              \<lparr>cmd_name = ''test'', cmd_func = 7,
                cmd_help = ''Run test, usage: ttys test [<op> [<arg>]] (enter no op/arg for help)''\<rparr>],
      log_level_ptr = Some 101,
      u16_pms = [(''uart rx overrun err'', Ttys_cnt CNT_RX_UART_ORE),
                 (''uart rx noise err'', Ttys_cnt CNT_RX_UART_NE),
                 (''uart rx frame err'', Ttys_cnt CNT_RX_UART_FE),
                 (''uart rx parity err'', Ttys_cnt CNT_RX_UART_PE),
                 (''tx buf overrun err'', Ttys_cnt CNT_TX_BUF_OVERRUN),
                 (''rx buf overrun err'', Ttys_cnt CNT_RX_BUF_OVERRUN)]\<rparr>"

definition example_registry :: "cmd_client_info option list" where
  "example_registry =
     snd (cmd_register example_aux_client (snd (cmd_register example_tmr_client cmd_init)))"

text \<open>The same registry with the client \<open>ttys\<close> registered first.\<close>

definition example_registry_ttys :: "cmd_client_info option list" where
  "example_registry_ttys =
     snd (cmd_register example_aux_client (snd (cmd_register example_tmr_client
       (snd (cmd_register example_ttys_client cmd_init)))))"

text \<open>Worlds: every log level 3, every counter 0, the serial transport with empty rings;
  and the same with the transmit rings full.\<close>

definition example_world :: cmd_world where
  "example_world =
     \<lparr>i32_mem = (\<lambda>a. 3), u16_mem = (\<lambda>a. 0), tty = ttys_test_mod 0 0 0 0 0, uart = []\<rparr>"

definition example_world_tx_full :: cmd_world where
  "example_world_tx_full =
     \<lparr>i32_mem = (\<lambda>a. 3), u16_mem = (\<lambda>a. 0), tty = ttys_test_mod 1 0 0 0 0, uart = []\<rparr>"

section \<open>Properties of the timer service\<close>

lemma tmr_inst_get_from_exhausted:
  "\<forall>i. idx \<le> i \<and> i < TMR_NUM_INST \<longrightarrow> state (tmrs s ! i) \<noteq> TMR_UNUSED \<Longrightarrow>
   tmr_inst_get_from idx ms s = (Inl MOD_ERR_RESOURCE, s)"
proof (induction idx ms s rule: tmr_inst_get_from.induct)
  case (1 idx ms s)
  show ?case
  proof (cases "idx < TMR_NUM_INST")
    case True
    with "1.prems" have st: "state (tmrs s ! idx) \<noteq> TMR_UNUSED" by simp
    have "tmr_inst_get_from (idx + 1) ms s = (Inl MOD_ERR_RESOURCE, s)"
      using "1.IH" [OF True refl st] "1.prems" by simp
    with True st show ?thesis by (subst tmr_inst_get_from.simps) simp
  next
    case False
    then show ?thesis by (subst tmr_inst_get_from.simps) simp
  qed
qed

text \<open>Claim C6: if no timer slot is in state \<open>TMR_UNUSED\<close>, \<open>tmr_inst_get\<close> returns
  \<open>MOD_ERR_RESOURCE\<close> and the module state, hence every field of every slot, is
  unchanged.\<close>

theorem tmr_inst_get_exhausted:
  "\<forall>idx < TMR_NUM_INST. state (tmrs s ! idx) \<noteq> TMR_UNUSED \<Longrightarrow>
   tmr_inst_get ms s = (Inl MOD_ERR_RESOURCE, s)"
  unfolding tmr_inst_get_def by (rule tmr_inst_get_from_exhausted) simp

theorem tmr_inst_get_exhausted_witness:
  "map state (tmrs (tmr_busy_state 7 7)) =
     [TMR_RUNNING, TMR_STOPPED, TMR_STOPPED, TMR_STOPPED, TMR_STOPPED] \<and>
   tmr_inst_get 25 (tmr_busy_state 7 7) = (Inl MOD_ERR_RESOURCE, tmr_busy_state 7 7)"
proof -
  have h: "\<forall>idx < TMR_NUM_INST. state (tmrs (tmr_busy_state 7 7) ! idx) \<noteq> TMR_UNUSED"
    by (simp add: TMR_NUM_INST_def tmr_busy_state_def nth_Cons split: nat.split)
  have "map state (tmrs (tmr_busy_state 7 7)) =
     [TMR_RUNNING, TMR_STOPPED, TMR_STOPPED, TMR_STOPPED, TMR_STOPPED]"
    by (simp add: tmr_busy_state_def eval_nat_numeral)
  then show ?thesis
    using tmr_inst_get_exhausted [OF h, of 25] by simp
qed

text \<open>Claim C8: \<open>tmr_inst_start\<close> returns \<open>MOD_ERR_ARG\<close> for an id outside
  \<open>[0, TMR_NUM_INST)\<close> and \<open>MOD_ERR_STATE\<close> for an unused slot, both without any change;
  otherwise it returns 0, and the slot is \<open>TMR_STOPPED\<close> with period 0 when \<open>ms = 0\<close>,
  and \<open>TMR_RUNNING\<close> with period \<open>ms\<close> and start time the current clock value when
  \<open>ms > 0\<close>; nothing else changes.\<close>

theorem tmr_inst_start_cases:
  "(\<not> (0 \<le> tmr_id \<and> tmr_id < int TMR_NUM_INST) \<longrightarrow>
      tmr_inst_start tmr_id ms s = (Inl MOD_ERR_ARG, s)) \<and>
   (0 \<le> tmr_id \<and> tmr_id < int TMR_NUM_INST \<and> state (tmrs s ! nat tmr_id) = TMR_UNUSED \<longrightarrow>
      tmr_inst_start tmr_id ms s = (Inl MOD_ERR_STATE, s)) \<and>
   (0 \<le> tmr_id \<and> tmr_id < int TMR_NUM_INST \<and> state (tmrs s ! nat tmr_id) \<noteq> TMR_UNUSED \<and>
    length (tmrs s) = TMR_NUM_INST \<longrightarrow>
      fst (tmr_inst_start tmr_id ms s) = Inr 0 \<and>
      tick_ms_ctr (snd (tmr_inst_start tmr_id ms s)) = tick_ms_ctr s \<and>
      last_ms (snd (tmr_inst_start tmr_id ms s)) = last_ms s \<and>
      length (tmrs (snd (tmr_inst_start tmr_id ms s))) = TMR_NUM_INST \<and>
      (\<forall>j < TMR_NUM_INST. j \<noteq> nat tmr_id \<longrightarrow>
         tmrs (snd (tmr_inst_start tmr_id ms s)) ! j = tmrs s ! j) \<and>
      (ms = 0 \<longrightarrow> tmrs (snd (tmr_inst_start tmr_id ms s)) ! nat tmr_id =
         (tmrs s ! nat tmr_id)\<lparr>period_ms := 0, state := TMR_STOPPED\<rparr>) \<and>
      (ms \<noteq> 0 \<longrightarrow> tmrs (snd (tmr_inst_start tmr_id ms s)) ! nat tmr_id =
         (tmrs s ! nat tmr_id)\<lparr>period_ms := ms, start_time := tmr_get_ms s,
            state := TMR_RUNNING\<rparr>))"
  by (auto simp: tmr_inst_start_def tmr_get_ms_def Let_def)

theorem tmr_inst_start_cases_witness:
  "tmr_inst_start 7 50 (tmr_busy_state 99 3) = (Inl MOD_ERR_ARG, tmr_busy_state 99 3) \<and>
   tmr_inst_start (- 1) 50 (tmr_busy_state 99 3) = (Inl MOD_ERR_ARG, tmr_busy_state 99 3) \<and>
   tmr_inst_start 2 50 tmr_init_state = (Inl MOD_ERR_STATE, tmr_init_state) \<and>
   fst (tmr_inst_start 1 50 (tmr_busy_state 99 3)) = Inr 0 \<and>
   tmrs (snd (tmr_inst_start 1 50 (tmr_busy_state 99 3))) ! 1 =
     \<lparr>period_ms = 50, start_time = 99, state = TMR_RUNNING, cb_func = None,
      cb_user_data = 0\<rparr> \<and>
   fst (tmr_inst_start 0 0 (tmr_busy_state 99 3)) = Inr 0 \<and>
   tmrs (snd (tmr_inst_start 0 0 (tmr_busy_state 99 3))) ! 0 =
     \<lparr>period_ms = 0, start_time = 0, state = TMR_STOPPED, cb_func = Some 0,
      cb_user_data = 0\<rparr>"
proof -
  have "tmr_inst_start 7 50 (tmr_busy_state 99 3) = (Inl MOD_ERR_ARG, tmr_busy_state 99 3)"
    using tmr_inst_start_cases [of 7 50 "tmr_busy_state 99 3"]
    by (simp add: TMR_NUM_INST_def)
  moreover
  have "tmr_inst_start (- 1) 50 (tmr_busy_state 99 3) = (Inl MOD_ERR_ARG, tmr_busy_state 99 3)"
    using tmr_inst_start_cases [of "- 1" 50 "tmr_busy_state 99 3"]
    by (simp add: TMR_NUM_INST_def)
  moreover
  have "tmr_inst_start 2 50 tmr_init_state = (Inl MOD_ERR_STATE, tmr_init_state)"
    using tmr_inst_start_cases [of 2 50 tmr_init_state]
    by (simp add: TMR_NUM_INST_def tmr_init_state_def)
  moreover
  have "fst (tmr_inst_start 1 50 (tmr_busy_state 99 3)) = Inr 0 \<and>
        tmrs (snd (tmr_inst_start 1 50 (tmr_busy_state 99 3))) ! 1 =
          \<lparr>period_ms = 50, start_time = 99, state = TMR_RUNNING, cb_func = None,
           cb_user_data = 0\<rparr>"
    using tmr_inst_start_cases [of 1 50 "tmr_busy_state 99 3"]
    by (simp add: TMR_NUM_INST_def tmr_busy_state_def tmr_get_ms_def)
  moreover
  have "fst (tmr_inst_start 0 0 (tmr_busy_state 99 3)) = Inr 0 \<and>
        tmrs (snd (tmr_inst_start 0 0 (tmr_busy_state 99 3))) ! 0 =
          \<lparr>period_ms = 0, start_time = 0, state = TMR_STOPPED, cb_func = Some 0,
           cb_user_data = 0\<rparr>"
    using tmr_inst_start_cases [of 0 0 "tmr_busy_state 99 3"]
    by (simp add: TMR_NUM_INST_def tmr_busy_state_def tmr_get_ms_def)
  ultimately show ?thesis by simp
qed

text \<open>Claim C10: whenever the millisecond clock equals \<open>last_ms\<close>, the value recorded by
  the previous invocation (initially 0), \<open>tmr_run\<close> returns 0 and leaves the whole module
  state unchanged, whatever the slots hold; the witness has a running timer whose deadline
  has passed.\<close>

theorem tmr_run_fast_exit:
  "tmr_get_ms s = last_ms s \<Longrightarrow> tmr_run cbs s = (Inr 0, s)"
  by (simp add: tmr_run_def)

theorem tmr_run_fast_exit_witness:
  "tmr_get_ms (tmr_busy_state 100 100) = last_ms (tmr_busy_state 100 100) \<and>
   state (tmrs (tmr_busy_state 100 100) ! 0) = TMR_RUNNING \<and>
   tmr_get_ms (tmr_busy_state 100 100) - start_time (tmrs (tmr_busy_state 100 100) ! 0)
     \<ge> period_ms (tmrs (tmr_busy_state 100 100) ! 0) \<and>
   tmr_run cb_restart (tmr_busy_state 100 100) = (Inr 0, tmr_busy_state 100 100)"
  using tmr_run_fast_exit [of "tmr_busy_state 100 100" cb_restart]
  by (simp add: tmr_busy_state_def tmr_get_ms_def)














section \<open>Properties of the serial transport\<close>

subsection \<open>Ring buffers as queues\<close>

lemma mod_twice_less: "(a::nat) < 2 * C \<Longrightarrow> a mod C = (if a < C then a else a - C)"
proof (cases "a < C")
  case True
  then show ?thesis by simp
next
  case False
  assume "a < 2 * C"
  with False have "a - C < C" and "C \<le> a" by simp_all
  then have "a mod C = a - C" by (simp add: le_mod_geq)
  with False show ?thesis by simp
qed

lemma ring_cnt_cases:
  "(g::nat) < C \<Longrightarrow> p < C \<Longrightarrow> (p + C - g) mod C = (if g \<le> p then p - g else p + C - g)"
  using mod_twice_less [of "p + C - g" C] by auto

lemma ring_next_cases: "(p::nat) < C \<Longrightarrow> Suc p mod C = (if Suc p = C then 0 else Suc p)"
  using mod_twice_less [of "Suc p" C] by auto

lemma ring_cnt_push:
  "(g::nat) < C \<Longrightarrow> p < C \<Longrightarrow> Suc p mod C \<noteq> g \<Longrightarrow>
   (Suc p mod C + C - g) mod C = Suc ((p + C - g) mod C)"
  using mod_twice_less [of "Suc p" C] mod_twice_less [of "p + C - g" C]
    mod_twice_less [of "C - g" C] mod_twice_less [of "Suc p + C - g" C]
  by (auto split: if_splits)

lemma ring_cnt_pop:
  "(g::nat) < C \<Longrightarrow> p < C \<Longrightarrow> g \<noteq> p \<Longrightarrow>
   (p + C - g) mod C = Suc ((p + C - Suc g mod C) mod C)"
  using mod_twice_less [of "Suc g" C] mod_twice_less [of "p + C - g" C]
    mod_twice_less [of "p + C" C] mod_twice_less [of "p + C - Suc g" C]
  by (auto split: if_splits)

lemma ring_last_pos:
  "(g::nat) < C \<Longrightarrow> p < C \<Longrightarrow> (g + (p + C - g) mod C) mod C = p"
  using mod_twice_less [of "p + C - g" C] mod_twice_less [of "g + (p - g)" C]
    mod_twice_less [of "g + (p + C - g)" C]
  by (auto split: if_splits)

lemma ring_other_pos:
  "(g::nat) < C \<Longrightarrow> p < C \<Longrightarrow> k < (p + C - g) mod C \<Longrightarrow> (g + k) mod C \<noteq> p"
  using mod_twice_less [of "p + C - g" C] mod_twice_less [of "g + k" C]
  by (auto split: if_splits)

lemma length_ring_seq: "length (ring_seq buf g p) = (p + length buf - g) mod length buf"
  by (simp add: ring_seq_def)

lemma ring_seq_empty: "g < length buf \<Longrightarrow> ring_seq buf g g = []"
  by (simp add: ring_seq_def)

lemma ring_seq_empty_iff:
  "g < length buf \<Longrightarrow> p < length buf \<Longrightarrow> ring_seq buf g p = [] \<longleftrightarrow> g = p"
  by (auto simp: ring_seq_def ring_cnt_cases split: if_splits)

lemma ring_full_iff:
  "g < length buf \<Longrightarrow> p < length buf \<Longrightarrow>
   Suc p mod length buf = g \<longleftrightarrow> length (ring_seq buf g p) = length buf - 1"
  using ring_next_cases [of p "length buf"]
  by (auto simp: length_ring_seq ring_cnt_cases split: if_splits)

lemma ring_seq_push:
  assumes g: "g < length buf" and p: "p < length buf" and nf: "Suc p mod length buf \<noteq> g"
  shows "ring_seq (buf[p := c]) g (Suc p mod length buf) = ring_seq buf g p @ [c]"
proof -
  let ?C = "length buf"
  let ?n = "(p + ?C - g) mod ?C"
  let ?f = "\<lambda>k. buf ! ((g + k) mod ?C)"
  let ?f' = "\<lambda>k. buf[p := c] ! ((g + k) mod ?C)"
  have cnt: "(Suc p mod ?C + ?C - g) mod ?C = Suc ?n"
    using g p nf by (rule ring_cnt_push)
  have last: "(g + ?n) mod ?C = p"
    using g p by (rule ring_last_pos)
  have other: "p \<noteq> (g + k) mod ?C" if "k < ?n" for k
    using ring_other_pos [OF g p that] by simp
  have same: "map ?f' [0..<?n] = map ?f [0..<?n]"
    by (intro map_cong refl) (simp add: other)
  have "ring_seq (buf[p := c]) g (Suc p mod ?C) = map ?f' [0..<Suc ?n]"
    by (simp only: ring_seq_def length_list_update cnt)
  also have "\<dots> = map ?f' [0..<?n] @ [?f' ?n]"
    by simp
  also have "\<dots> = map ?f [0..<?n] @ [c]"
    using same last p by simp
  finally show ?thesis
    by (simp only: ring_seq_def)
qed

lemma ring_seq_pop:
  assumes g: "g < length buf" and p: "p < length buf" and ne: "g \<noteq> p"
  shows "ring_seq buf g p = buf ! g # ring_seq buf (Suc g mod length buf) p"
proof -
  let ?C = "length buf"
  let ?n = "(p + ?C - Suc g mod ?C) mod ?C"
  let ?f = "\<lambda>k. buf ! ((g + k) mod ?C)"
  let ?h = "\<lambda>k. buf ! ((Suc g mod ?C + k) mod ?C)"
  have cnt: "(p + ?C - g) mod ?C = Suc ?n"
    using g p ne by (rule ring_cnt_pop)
  have idx: "(Suc g mod ?C + k) mod ?C = (g + Suc k) mod ?C" for k
    by (simp add: mod_add_left_eq)
  have upt0: "[0..<Suc ?n] = 0 # map Suc [0..<?n]"
    unfolding map_Suc_upt by (rule upt_conv_Cons) simp
  have "ring_seq buf g p = map ?f [0..<Suc ?n]"
    by (simp only: ring_seq_def cnt)
  also have "\<dots> = ?f 0 # map (\<lambda>k. ?f (Suc k)) [0..<?n]"
    by (simp only: upt0 list.map map_map comp_def)
  also have "\<dots> = buf ! g # map ?h [0..<?n]"
    using g by (simp only: idx) simp
  finally show ?thesis
    by (simp only: ring_seq_def)
qed

subsection \<open>The index arithmetic of the code\<close>

lemma tx_next_put_unat:
  fixes p :: u16
  assumes "unat p < TTYS_TX_BUF_SIZE"
  shows "unat (if unat (p + 1) \<ge> TTYS_TX_BUF_SIZE then 0 else p + 1) = Suc (unat p) mod TTYS_TX_BUF_SIZE"
proof -
  have "unat (p + 1) = Suc (unat p)"
    using assms by (simp add: TTYS_TX_BUF_SIZE_def unat_word_ariths)
  then show ?thesis
    using assms ring_next_cases [of "unat p" TTYS_TX_BUF_SIZE] by (auto simp: TTYS_TX_BUF_SIZE_def)
qed

lemma rx_next_put_unat:
  fixes p :: u16
  assumes "unat p < TTYS_RX_BUF_SIZE"
  shows "unat (if unat (p + 1) \<ge> TTYS_RX_BUF_SIZE then 0 else p + 1) = Suc (unat p) mod TTYS_RX_BUF_SIZE"
proof -
  have "unat (p + 1) = Suc (unat p)"
    using assms by (simp add: TTYS_RX_BUF_SIZE_def unat_word_ariths)
  then show ?thesis
    using assms ring_next_cases [of "unat p" TTYS_RX_BUF_SIZE] by (auto simp: TTYS_RX_BUF_SIZE_def)
qed

lemma tx_next_get_unat:
  fixes g :: u16
  assumes "unat g < TTYS_TX_BUF_SIZE"
  shows "unat (if unat g < TTYS_TX_BUF_SIZE - 1 then g + 1 else 0) = Suc (unat g) mod TTYS_TX_BUF_SIZE"
proof -
  have "unat (g + 1) = Suc (unat g)"
    using assms by (simp add: TTYS_TX_BUF_SIZE_def unat_word_ariths)
  then show ?thesis
    using assms ring_next_cases [of "unat g" TTYS_TX_BUF_SIZE] by (auto simp: TTYS_TX_BUF_SIZE_def)
qed

lemma rx_next_get_unat:
  fixes g :: u16
  assumes "unat g < TTYS_RX_BUF_SIZE"
  shows "unat (word_of_int (if uint g + 1 \<ge> int TTYS_RX_BUF_SIZE then 0 else uint g + 1) :: u16)
           = Suc (unat g) mod TTYS_RX_BUF_SIZE"
proof -
  have c: "(uint g + 1 \<ge> int TTYS_RX_BUF_SIZE) = (Suc (unat g) = TTYS_RX_BUF_SIZE)"
  proof -
    have u: "uint g = int (unat g)" by simp
    show ?thesis using assms u unfolding TTYS_RX_BUF_SIZE_def by linarith
  qed
  have w: "(word_of_int (uint g + 1) :: u16) = g + 1"
    by simp
  have "unat (g + 1) = Suc (unat g)"
    using assms by (simp add: TTYS_RX_BUF_SIZE_def unat_word_ariths)
  then show ?thesis
    using assms ring_next_cases [of "unat g" TTYS_RX_BUF_SIZE]
    by (simp only: c w split: if_splits) auto
qed

lemma ttys_mod_ok_nth:
  "ttys_mod_ok m \<Longrightarrow> i < TTYS_NUM_INSTANCES \<Longrightarrow>
   ttys_state_ok (ttys_states m ! i) \<and> i < length (ttys_states m)"
  by (simp add: ttys_mod_ok_def list_all_length)

lemma ttys_mod_ok_update:
  "ttys_mod_ok m \<Longrightarrow> ttys_state_ok st' \<Longrightarrow> length cnts = NUM_U16_PMS \<Longrightarrow>
   ttys_mod_ok (m\<lparr>ttys_states := (ttys_states m)[i := st'], cnts_u16 := cnts\<rparr>)"
  by (auto simp: ttys_mod_ok_def list_all_iff dest: subsetD [OF set_update_subset_insert])

lemma ttys_mod_ok_update_states:
  "ttys_mod_ok m \<Longrightarrow> ttys_state_ok st' \<Longrightarrow>
   ttys_mod_ok (m\<lparr>ttys_states := (ttys_states m)[i := st']\<rparr>)"
  by (auto simp: ttys_mod_ok_def list_all_iff dest: subsetD [OF set_update_subset_insert])

lemma tx_full_iff:
  assumes "ttys_state_ok st"
  shows "(if unat (tx_buf_put_idx st + 1) \<ge> TTYS_TX_BUF_SIZE then 0 else tx_buf_put_idx st + 1)
           = tx_buf_get_idx st \<longleftrightarrow>
         length (tx_seq st) = TTYS_TX_BUF_SIZE - 1"
proof -
  let ?n = "if unat (tx_buf_put_idx st + 1) \<ge> TTYS_TX_BUF_SIZE then 0 else tx_buf_put_idx st + 1"
  have "(?n = tx_buf_get_idx st) = (unat ?n = unat (tx_buf_get_idx st))"
    by (simp only: word_unat_eq_iff)
  also have "\<dots> = (Suc (unat (tx_buf_put_idx st)) mod length (tx_buf st) = unat (tx_buf_get_idx st))"
    using assms tx_next_put_unat [of "tx_buf_put_idx st"] by (simp only: ttys_state_ok_def)
  also have "\<dots> = (length (tx_seq st) = TTYS_TX_BUF_SIZE - 1)"
    using assms ring_full_iff [of "unat (tx_buf_get_idx st)" "tx_buf st" "unat (tx_buf_put_idx st)"]
    by (simp add: ttys_state_ok_def tx_seq_def)
  finally show ?thesis .
qed

lemma rx_full_iff:
  assumes "ttys_state_ok st"
  shows "(if unat (rx_buf_put_idx st + 1) \<ge> TTYS_RX_BUF_SIZE then 0 else rx_buf_put_idx st + 1)
           = rx_buf_get_idx st \<longleftrightarrow>
         length (rx_seq st) = TTYS_RX_BUF_SIZE - 1"
proof -
  let ?n = "if unat (rx_buf_put_idx st + 1) \<ge> TTYS_RX_BUF_SIZE then 0 else rx_buf_put_idx st + 1"
  have "(?n = rx_buf_get_idx st) = (unat ?n = unat (rx_buf_get_idx st))"
    by (simp only: word_unat_eq_iff)
  also have "\<dots> = (Suc (unat (rx_buf_put_idx st)) mod length (rx_buf st) = unat (rx_buf_get_idx st))"
    using assms rx_next_put_unat [of "rx_buf_put_idx st"] by (simp only: ttys_state_ok_def)
  also have "\<dots> = (length (rx_seq st) = TTYS_RX_BUF_SIZE - 1)"
    using assms ring_full_iff [of "unat (rx_buf_get_idx st)" "rx_buf st" "unat (rx_buf_put_idx st)"]
    by (simp add: ttys_state_ok_def rx_seq_def)
  finally show ?thesis .
qed

lemma tx_empty_iff:
  "ttys_state_ok st \<Longrightarrow> tx_buf_get_idx st = tx_buf_put_idx st \<longleftrightarrow> tx_seq st = []"
  using ring_seq_empty_iff [of "unat (tx_buf_get_idx st)" "tx_buf st" "unat (tx_buf_put_idx st)"]
  by (simp add: ttys_state_ok_def tx_seq_def word_unat_eq_iff)

lemma rx_empty_iff:
  "ttys_state_ok st \<Longrightarrow> rx_buf_get_idx st = rx_buf_put_idx st \<longleftrightarrow> rx_seq st = []"
  using ring_seq_empty_iff [of "unat (rx_buf_get_idx st)" "rx_buf st" "unat (rx_buf_put_idx st)"]
  by (simp add: ttys_state_ok_def rx_seq_def word_unat_eq_iff)

text \<open>The four ring operations on one instance state.\<close>

lemma tx_push:
  fixes c :: u8
  assumes ok: "ttys_state_ok st" and room: "length (tx_seq st) \<noteq> TTYS_TX_BUF_SIZE - 1"
  defines "n \<equiv> (if unat (tx_buf_put_idx st + 1) \<ge> TTYS_TX_BUF_SIZE then 0 else tx_buf_put_idx st + 1)"
  defines "st' \<equiv> st\<lparr>tx_buf := (tx_buf st)[unat (tx_buf_put_idx st) := c], tx_buf_put_idx := n\<rparr>"
  shows "ttys_state_ok st'" and "tx_seq st' = tx_seq st @ [c]" and "rx_seq st' = rx_seq st"
proof -
  have un: "unat n = Suc (unat (tx_buf_put_idx st)) mod length (tx_buf st)"
    using ok tx_next_put_unat [of "tx_buf_put_idx st"] by (simp only: n_def ttys_state_ok_def)
  have nf: "Suc (unat (tx_buf_put_idx st)) mod length (tx_buf st) \<noteq> unat (tx_buf_get_idx st)"
    using ok room tx_full_iff [OF ok] un by (simp only: n_def [symmetric] word_unat_eq_iff) simp
  show "ttys_state_ok st'"
    using ok un by (simp add: st'_def ttys_state_ok_def TTYS_TX_BUF_SIZE_def)
  show "tx_seq st' = tx_seq st @ [c]"
    using ok ring_seq_push [OF _ _ nf, of c] by (simp add: st'_def tx_seq_def un ttys_state_ok_def)
  show "rx_seq st' = rx_seq st"
    by (simp add: st'_def rx_seq_def)
qed

lemma rx_push:
  fixes c :: u8
  assumes ok: "ttys_state_ok st" and room: "length (rx_seq st) \<noteq> TTYS_RX_BUF_SIZE - 1"
  defines "n \<equiv> (if unat (rx_buf_put_idx st + 1) \<ge> TTYS_RX_BUF_SIZE then 0 else rx_buf_put_idx st + 1)"
  defines "st' \<equiv> st\<lparr>rx_buf := (rx_buf st)[unat (rx_buf_put_idx st) := c], rx_buf_put_idx := n\<rparr>"
  shows "ttys_state_ok st'" and "rx_seq st' = rx_seq st @ [c]" and "tx_seq st' = tx_seq st"
proof -
  have un: "unat n = Suc (unat (rx_buf_put_idx st)) mod length (rx_buf st)"
    using ok rx_next_put_unat [of "rx_buf_put_idx st"] by (simp only: n_def ttys_state_ok_def)
  have nf: "Suc (unat (rx_buf_put_idx st)) mod length (rx_buf st) \<noteq> unat (rx_buf_get_idx st)"
    using ok room rx_full_iff [OF ok] un by (simp only: n_def [symmetric] word_unat_eq_iff) simp
  show "ttys_state_ok st'"
    using ok un by (simp add: st'_def ttys_state_ok_def TTYS_RX_BUF_SIZE_def)
  show "rx_seq st' = rx_seq st @ [c]"
    using ok ring_seq_push [OF _ _ nf, of c] by (simp add: st'_def rx_seq_def un ttys_state_ok_def)
  show "tx_seq st' = tx_seq st"
    by (simp add: st'_def tx_seq_def)
qed

lemma tx_pop:
  assumes ok: "ttys_state_ok st" and ne: "tx_seq st \<noteq> []"
  defines "st' \<equiv> (if unat (tx_buf_get_idx st) < TTYS_TX_BUF_SIZE - 1
            then st\<lparr>tx_buf_get_idx := tx_buf_get_idx st + 1\<rparr>
            else st\<lparr>tx_buf_get_idx := 0\<rparr>)"
  shows "ttys_state_ok st'" and "tx_seq st = tx_buf st ! unat (tx_buf_get_idx st) # tx_seq st'"
    and "rx_seq st' = rx_seq st"
proof -
  define n where
    "n = (if unat (tx_buf_get_idx st) < TTYS_TX_BUF_SIZE - 1 then tx_buf_get_idx st + 1 else 0)"
  have st': "st' = st\<lparr>tx_buf_get_idx := n\<rparr>"
    by (simp add: st'_def n_def)
  have un: "unat n = Suc (unat (tx_buf_get_idx st)) mod length (tx_buf st)"
    using ok tx_next_get_unat [of "tx_buf_get_idx st"] by (simp only: n_def ttys_state_ok_def)
  have ne': "unat (tx_buf_get_idx st) \<noteq> unat (tx_buf_put_idx st)"
    using ne tx_empty_iff [OF ok] by (simp add: word_unat_eq_iff)
  show "ttys_state_ok st'"
    using ok un unfolding st' by (simp add: ttys_state_ok_def TTYS_TX_BUF_SIZE_def)
  have g: "unat (tx_buf_get_idx st) < length (tx_buf st)"
    and p: "unat (tx_buf_put_idx st) < length (tx_buf st)"
    using ok by (simp_all add: ttys_state_ok_def)
  show "tx_seq st = tx_buf st ! unat (tx_buf_get_idx st) # tx_seq st'"
    using ring_seq_pop [OF g p ne'] unfolding st'
    by (simp add: tx_seq_def un)
  show "rx_seq st' = rx_seq st"
    unfolding st' by (simp add: rx_seq_def)
qed

lemma rx_pop:
  assumes ok: "ttys_state_ok st" and ne: "rx_seq st \<noteq> []"
  defines "st' \<equiv> st\<lparr>rx_buf_get_idx := word_of_int
     (if uint (rx_buf_get_idx st) + 1 \<ge> int TTYS_RX_BUF_SIZE then 0 else uint (rx_buf_get_idx st) + 1)\<rparr>"
  shows "ttys_state_ok st'" and "rx_seq st = rx_buf st ! unat (rx_buf_get_idx st) # rx_seq st'"
    and "tx_seq st' = tx_seq st"
proof -
  define n :: u16 where
    "n = word_of_int (if uint (rx_buf_get_idx st) + 1 \<ge> int TTYS_RX_BUF_SIZE then 0
       else uint (rx_buf_get_idx st) + 1)"
  have st': "st' = st\<lparr>rx_buf_get_idx := n\<rparr>"
    by (simp only: st'_def n_def)
  have un: "unat n = Suc (unat (rx_buf_get_idx st)) mod length (rx_buf st)"
    using ok rx_next_get_unat [of "rx_buf_get_idx st"] by (simp only: n_def ttys_state_ok_def)
  have ne': "unat (rx_buf_get_idx st) \<noteq> unat (rx_buf_put_idx st)"
    using ne rx_empty_iff [OF ok] by (simp add: word_unat_eq_iff)
  show "ttys_state_ok st'"
    using ok un unfolding st' by (simp add: ttys_state_ok_def TTYS_RX_BUF_SIZE_def)
  have g: "unat (rx_buf_get_idx st) < length (rx_buf st)"
    and p: "unat (rx_buf_put_idx st) < length (rx_buf st)"
    using ok by (simp_all add: ttys_state_ok_def)
  show "rx_seq st = rx_buf st ! unat (rx_buf_get_idx st) # rx_seq st'"
    using ring_seq_pop [OF g p ne'] unfolding st'
    by (simp add: rx_seq_def un)
  show "tx_seq st' = tx_seq st"
    unfolding st' by (simp add: tx_seq_def)
qed

subsection \<open>The operations on one instance\<close>

lemma ttys_interrupt_rx_props:
  assumes ok: "ttys_state_ok st" and len: "length cnts = NUM_U16_PMS"
  obtains e1 st1 cnts1 where "ttys_interrupt_rx sr dr (st, cnts) = (e1, st1, cnts1)"
    and "ttys_state_ok st1" and "length cnts1 = NUM_U16_PMS" and "tx_seq st1 = tx_seq st"
    and "uart_reg_base st1 = uart_reg_base st" and "dr_writes e1 = []"
    and "sr_RXNE sr \<Longrightarrow> length (rx_seq st) \<noteq> TTYS_RX_BUF_SIZE - 1 \<Longrightarrow> rx_seq st1 = rx_seq st @ [dr]"
    and "\<not> sr_RXNE sr \<Longrightarrow> rx_seq st1 = rx_seq st"
proof (cases "sr_RXNE sr \<and> length (rx_seq st) \<noteq> TTYS_RX_BUF_SIZE - 1")
  case True
  then have nf: "(if unat (rx_buf_put_idx st + 1) \<ge> TTYS_RX_BUF_SIZE then 0 else rx_buf_put_idx st + 1)
      \<noteq> rx_buf_get_idx st"
    using rx_full_iff [OF ok] by simp
  note push = rx_push [OF ok conjunct2 [OF True], of dr]
  have eq: "ttys_interrupt_rx sr dr (st, cnts) =
      ([DR_read],
       st\<lparr>rx_buf := (rx_buf st)[unat (rx_buf_put_idx st) := dr],
          rx_buf_put_idx := (if unat (rx_buf_put_idx st + 1) \<ge> TTYS_RX_BUF_SIZE then 0
             else rx_buf_put_idx st + 1)\<rparr>,
       cnts)"
    using True nf by (simp add: ttys_interrupt_rx_def Let_def)
  show ?thesis
    by (rule that [OF eq push(1) len push(3) _ _ push(2)]) (use True in simp_all)
next
  case False
  show ?thesis
  proof (cases "sr_RXNE sr")
    case True
    with False have full: "(if unat (rx_buf_put_idx st + 1) \<ge> TTYS_RX_BUF_SIZE then 0 else rx_buf_put_idx st + 1)
      = rx_buf_get_idx st"
      using rx_full_iff [OF ok] by simp
    show ?thesis
      by (rule that [of "[DR_read]" st "cnts[CNT_RX_BUF_OVERRUN := INC_SAT_U16 (cnts ! CNT_RX_BUF_OVERRUN)]"])
        (use True False full ok len in \<open>simp_all add: ttys_interrupt_rx_def Let_def\<close>)
  next
    case nr: False
    show ?thesis
      by (rule that [of "[]" st cnts])
        (use nr ok len in \<open>simp_all add: ttys_interrupt_rx_def\<close>)
  qed
qed

lemma ttys_interrupt_tx_props:
  assumes ok: "ttys_state_ok st"
  obtains e2 st2 where "ttys_interrupt_tx sr st = (e2, st2)"
    and "ttys_state_ok st2" and "rx_seq st2 = rx_seq st"
    and "uart_reg_base st2 = uart_reg_base st"
    and "\<And>b bs. sr_TXE sr \<Longrightarrow> tx_seq st = b # bs \<Longrightarrow> dr_writes e2 = [b] \<and> tx_seq st2 = bs"
    and "\<not> sr_TXE sr \<Longrightarrow> tx_seq st2 = tx_seq st \<and> dr_writes e2 = []"
proof (cases "sr_TXE sr \<and> tx_seq st \<noteq> []")
  case True
  then have ne: "tx_buf_get_idx st \<noteq> tx_buf_put_idx st"
    using tx_empty_iff [OF ok] by simp
  note pop = tx_pop [OF ok conjunct2 [OF True]]
  show ?thesis
  proof (rule that [OF _ pop(1) pop(3)])
    show "ttys_interrupt_tx sr st =
      ([DR_write (tx_buf st ! unat (tx_buf_get_idx st))],
       (if unat (tx_buf_get_idx st) < TTYS_TX_BUF_SIZE - 1
        then st\<lparr>tx_buf_get_idx := tx_buf_get_idx st + 1\<rparr>
        else st\<lparr>tx_buf_get_idx := 0\<rparr>))"
      using True ne by (simp add: ttys_interrupt_tx_def)
    show "uart_reg_base (if unat (tx_buf_get_idx st) < TTYS_TX_BUF_SIZE - 1
        then st\<lparr>tx_buf_get_idx := tx_buf_get_idx st + 1\<rparr>
        else st\<lparr>tx_buf_get_idx := 0\<rparr>) = uart_reg_base st"
      by simp
    show "dr_writes [DR_write (tx_buf st ! unat (tx_buf_get_idx st))] = [b] \<and>
        tx_seq (if unat (tx_buf_get_idx st) < TTYS_TX_BUF_SIZE - 1
        then st\<lparr>tx_buf_get_idx := tx_buf_get_idx st + 1\<rparr>
        else st\<lparr>tx_buf_get_idx := 0\<rparr>) = bs" if "tx_seq st = b # bs" for b bs
      using pop(2) that by simp
    show "tx_seq (if unat (tx_buf_get_idx st) < TTYS_TX_BUF_SIZE - 1
        then st\<lparr>tx_buf_get_idx := tx_buf_get_idx st + 1\<rparr>
        else st\<lparr>tx_buf_get_idx := 0\<rparr>) = tx_seq st \<and>
        dr_writes [DR_write (tx_buf st ! unat (tx_buf_get_idx st))] = []" if "\<not> sr_TXE sr"
      using that True by simp
  qed
next
  case False
  show ?thesis
  proof (cases "sr_TXE sr")
    case True
    with False have e: "tx_buf_get_idx st = tx_buf_put_idx st" and em: "tx_seq st = []"
      using tx_empty_iff [OF ok] by simp_all
    show ?thesis
      by (rule that [of "[DisableIT_TXE]" st])
        (use True e em ok in \<open>simp_all add: ttys_interrupt_tx_def\<close>)
  next
    case nt: False
    show ?thesis
      by (rule that [of "[]" st]) (use nt ok in \<open>simp_all add: ttys_interrupt_tx_def\<close>)
  qed
qed

lemma ttys_interrupt_err_props:
  "length (snd (ttys_interrupt_err sr cnts)) = length cnts \<and>
   dr_writes (fst (ttys_interrupt_err sr cnts)) = []"
  by (simp add: ttys_interrupt_err_def Let_def)

lemma dr_writes_append: "dr_writes (xs @ ys) = dr_writes xs @ dr_writes ys"
  by (induction xs rule: dr_writes.induct) simp_all

lemma ttys_interrupt_rx_proj:
  assumes ok: "ttys_state_ok st" and len: "length cnts = NUM_U16_PMS"
  shows "ttys_state_ok (fst (snd (ttys_interrupt_rx sr dr (st, cnts)))) \<and>
    length (snd (snd (ttys_interrupt_rx sr dr (st, cnts)))) = NUM_U16_PMS \<and>
    tx_seq (fst (snd (ttys_interrupt_rx sr dr (st, cnts)))) = tx_seq st \<and>
    uart_reg_base (fst (snd (ttys_interrupt_rx sr dr (st, cnts)))) = uart_reg_base st \<and>
    dr_writes (fst (ttys_interrupt_rx sr dr (st, cnts))) = [] \<and>
    (sr_RXNE sr \<longrightarrow> length (rx_seq st) \<noteq> TTYS_RX_BUF_SIZE - 1 \<longrightarrow>
       rx_seq (fst (snd (ttys_interrupt_rx sr dr (st, cnts)))) = rx_seq st @ [dr]) \<and>
    (\<not> sr_RXNE sr \<longrightarrow> rx_seq (fst (snd (ttys_interrupt_rx sr dr (st, cnts)))) = rx_seq st)"
  by (rule ttys_interrupt_rx_props [OF ok len, where sr = sr and dr = dr]) simp

lemma ttys_interrupt_tx_proj:
  assumes ok: "ttys_state_ok st"
  shows "ttys_state_ok (snd (ttys_interrupt_tx sr st)) \<and>
    rx_seq (snd (ttys_interrupt_tx sr st)) = rx_seq st \<and>
    uart_reg_base (snd (ttys_interrupt_tx sr st)) = uart_reg_base st \<and>
    (\<forall>b bs. sr_TXE sr \<longrightarrow> tx_seq st = b # bs \<longrightarrow>
       dr_writes (fst (ttys_interrupt_tx sr st)) = [b] \<and>
       tx_seq (snd (ttys_interrupt_tx sr st)) = bs) \<and>
    (\<not> sr_TXE sr \<longrightarrow> tx_seq (snd (ttys_interrupt_tx sr st)) = tx_seq st \<and>
       dr_writes (fst (ttys_interrupt_tx sr st)) = [])"
  by (rule ttys_interrupt_tx_props [OF ok, where sr = sr]) simp

lemma ttys_putc_room:
  assumes ok: "ttys_mod_ok m" and i: "i < TTYS_NUM_INSTANCES"
    and room: "length (tx_seq (ttys_states m ! i)) \<noteq> TTYS_TX_BUF_SIZE - 1"
  obtains e m' where "ttys_putc i c m = (Inr 0, e, m')" and "ttys_mod_ok m'"
    and "tx_seq (ttys_states m' ! i) = tx_seq (ttys_states m ! i) @ [c]"
    and "rx_seq (ttys_states m' ! i) = rx_seq (ttys_states m ! i)"
    and "uart_reg_base (ttys_states m' ! i) = uart_reg_base (ttys_states m ! i)"
    and "cnts_u16 m' = cnts_u16 m"
proof -
  let ?st = "ttys_states m ! i"
  let ?n = "if unat (tx_buf_put_idx ?st + 1) \<ge> TTYS_TX_BUF_SIZE then 0 else tx_buf_put_idx ?st + 1"
  let ?st' = "?st\<lparr>tx_buf := (tx_buf ?st)[unat (tx_buf_put_idx ?st) := c], tx_buf_put_idx := ?n\<rparr>"
  let ?m' = "m\<lparr>ttys_states := (ttys_states m)[i := ?st']\<rparr>"
  from ttys_mod_ok_nth [OF ok i] have sok: "ttys_state_ok ?st" and il: "i < length (ttys_states m)"
    by simp_all
  have nf: "?n \<noteq> tx_buf_get_idx ?st"
    using tx_full_iff [OF sok] room by simp
  note push = tx_push [OF sok room, of c]
  have eq: "ttys_putc i c m =
      (Inr 0, (if uart_reg_base ?st \<noteq> None
               then [CPU_disable_irq, EnableIT_TXE, CPU_enable_irq] else []), ?m')"
    using i nf by (simp add: ttys_putc_def Let_def)
  have nth: "ttys_states ?m' ! i = ?st'"
    using il by simp
  show ?thesis
  proof (rule that [OF eq])
    show "ttys_mod_ok ?m'"
      using ok push(1) by (rule ttys_mod_ok_update_states)
    show "tx_seq (ttys_states ?m' ! i) = tx_seq ?st @ [c]"
      unfolding nth by (rule push(2))
    show "rx_seq (ttys_states ?m' ! i) = rx_seq ?st"
      unfolding nth by (rule push(3))
    show "uart_reg_base (ttys_states ?m' ! i) = uart_reg_base ?st"
      unfolding nth by simp
    show "cnts_u16 ?m' = cnts_u16 m"
      by simp
  qed
qed

lemma ttys_putc_full:
  assumes ok: "ttys_mod_ok m" and i: "i < TTYS_NUM_INSTANCES"
    and full: "length (tx_seq (ttys_states m ! i)) = TTYS_TX_BUF_SIZE - 1"
  shows "ttys_putc i c m =
    (Inl MOD_ERR_BUF_OVERRUN, [],
     m\<lparr>cnts_u16 := (cnts_u16 m)[CNT_TX_BUF_OVERRUN :=
          INC_SAT_U16 (cnts_u16 m ! CNT_TX_BUF_OVERRUN)]\<rparr>)"
proof -
  from ttys_mod_ok_nth [OF ok i] have sok: "ttys_state_ok (ttys_states m ! i)"
    by simp
  show ?thesis
    using i tx_full_iff [OF sok] full by (simp add: ttys_putc_def Let_def)
qed

lemma ttys_getc_pop:
  assumes ok: "ttys_mod_ok m" and i: "i < TTYS_NUM_INSTANCES"
    and ne: "rx_seq (ttys_states m ! i) = b # bs"
  obtains m' where "ttys_getc i m = (Inr 1, Some b, m')" and "ttys_mod_ok m'"
    and "rx_seq (ttys_states m' ! i) = bs"
proof -
  let ?st = "ttys_states m ! i"
  let ?st' = "?st\<lparr>rx_buf_get_idx := word_of_int
     (if uint (rx_buf_get_idx ?st) + 1 \<ge> int TTYS_RX_BUF_SIZE then 0
      else uint (rx_buf_get_idx ?st) + 1)\<rparr>"
  let ?m' = "m\<lparr>ttys_states := (ttys_states m)[i := ?st']\<rparr>"
  from ttys_mod_ok_nth [OF ok i] have sok: "ttys_state_ok ?st" and il: "i < length (ttys_states m)"
    by simp_all
  have ne': "rx_seq ?st \<noteq> []" using ne by simp
  then have nf: "rx_buf_get_idx ?st \<noteq> rx_buf_put_idx ?st"
    using rx_empty_iff [OF sok] by simp
  note pop = rx_pop [OF sok ne']
  have eq: "ttys_getc i m = (Inr 1, Some (rx_buf ?st ! unat (rx_buf_get_idx ?st)), ?m')"
    using i nf by (simp add: ttys_getc_def Let_def)
  have hd: "rx_buf ?st ! unat (rx_buf_get_idx ?st) = b" and tl: "rx_seq ?st' = bs"
    using pop(2) ne by simp_all
  have nth: "ttys_states ?m' ! i = ?st'"
    using il by simp
  show ?thesis
  proof (rule that)
    show "ttys_getc i m = (Inr 1, Some b, ?m')"
      using eq hd by simp
    show "ttys_mod_ok ?m'"
      using ok pop(1) by (rule ttys_mod_ok_update_states)
    show "rx_seq (ttys_states ?m' ! i) = bs"
      unfolding nth by (rule tl)
  qed
qed

lemma ttys_interrupt_props:
  assumes ok: "ttys_mod_ok m" and i: "i < TTYS_NUM_INSTANCES"
    and op: "uart_reg_base (ttys_states m ! i) \<noteq> None"
  obtains e m' where "ttys_interrupt i irq sr dr m = (e, m')" and "ttys_mod_ok m'"
    and "uart_reg_base (ttys_states m' ! i) = uart_reg_base (ttys_states m ! i)"
    and "\<And>b bs. sr_TXE sr \<Longrightarrow> tx_seq (ttys_states m ! i) = b # bs \<Longrightarrow>
           dr_writes e = [b] \<and> tx_seq (ttys_states m' ! i) = bs"
    and "\<not> sr_TXE sr \<Longrightarrow> tx_seq (ttys_states m' ! i) = tx_seq (ttys_states m ! i) \<and> dr_writes e = []"
    and "sr_RXNE sr \<Longrightarrow> length (rx_seq (ttys_states m ! i)) \<noteq> TTYS_RX_BUF_SIZE - 1 \<Longrightarrow>
           rx_seq (ttys_states m' ! i) = rx_seq (ttys_states m ! i) @ [dr]"
    and "\<not> sr_RXNE sr \<Longrightarrow> rx_seq (ttys_states m' ! i) = rx_seq (ttys_states m ! i)"
proof -
  let ?st = "ttys_states m ! i"
  from ttys_mod_ok_nth [OF ok i] have sok: "ttys_state_ok ?st" and il: "i < length (ttys_states m)"
    by simp_all
  have len: "length (cnts_u16 m) = NUM_U16_PMS"
    using ok by (simp add: ttys_mod_ok_def)
  obtain e1 st1 cnts1 where
    r: "ttys_interrupt_rx sr dr (?st, cnts_u16 m) = (e1, st1, cnts1)"
    by (cases "ttys_interrupt_rx sr dr (?st, cnts_u16 m)")
  have r_ok: "ttys_state_ok st1" and r_len: "length cnts1 = NUM_U16_PMS"
    and r_tx: "tx_seq st1 = tx_seq ?st" and r_u: "uart_reg_base st1 = uart_reg_base ?st"
    and r_w: "dr_writes e1 = []"
    and r_push: "sr_RXNE sr \<Longrightarrow> length (rx_seq ?st) \<noteq> TTYS_RX_BUF_SIZE - 1 \<Longrightarrow>
        rx_seq st1 = rx_seq ?st @ [dr]"
    and r_same: "\<not> sr_RXNE sr \<Longrightarrow> rx_seq st1 = rx_seq ?st"
    using ttys_interrupt_rx_proj [OF sok len, of sr dr] by (simp_all add: r)
  obtain e2 st2 where
    t: "ttys_interrupt_tx sr st1 = (e2, st2)"
    by (cases "ttys_interrupt_tx sr st1")
  have t_ok: "ttys_state_ok st2" and t_rx: "rx_seq st2 = rx_seq st1"
    and t_u: "uart_reg_base st2 = uart_reg_base st1"
    and t_pop: "\<And>b bs. sr_TXE sr \<Longrightarrow> tx_seq st1 = b # bs \<Longrightarrow> dr_writes e2 = [b] \<and> tx_seq st2 = bs"
    and t_same: "\<not> sr_TXE sr \<Longrightarrow> tx_seq st2 = tx_seq st1 \<and> dr_writes e2 = []"
    using ttys_interrupt_tx_proj [OF r_ok, of sr] by (simp_all add: t)
  obtain e3 cnts3 where x: "ttys_interrupt_err sr cnts1 = (e3, cnts3)"
    by (cases "ttys_interrupt_err sr cnts1")
  have x_len: "length cnts3 = NUM_U16_PMS" and x_w: "dr_writes e3 = []"
    using ttys_interrupt_err_props [of sr cnts1] x r_len by simp_all
  let ?m' = "m\<lparr>ttys_states := (ttys_states m)[i := st2], cnts_u16 := cnts3\<rparr>"
  have eq: "ttys_interrupt i irq sr dr m = (e1 @ e2 @ e3, ?m')"
    using i op r t x by (auto simp: ttys_interrupt_def Let_def)
  have nth: "ttys_states ?m' ! i = st2"
    using il by simp
  have app: "dr_writes (e1 @ e2 @ e3) = dr_writes e2"
    using r_w x_w by (simp add: dr_writes_append)
  show ?thesis
  proof (rule that [OF eq])
    show "ttys_mod_ok ?m'"
      using ok t_ok x_len by (rule ttys_mod_ok_update)
    show "uart_reg_base (ttys_states ?m' ! i) = uart_reg_base ?st"
      unfolding nth using t_u r_u by simp
    show "dr_writes (e1 @ e2 @ e3) = [b] \<and> tx_seq (ttys_states ?m' ! i) = bs"
      if "sr_TXE sr" "tx_seq ?st = b # bs" for b bs
      unfolding nth app using t_pop [of b bs] that r_tx by simp
    show "tx_seq (ttys_states ?m' ! i) = tx_seq ?st \<and> dr_writes (e1 @ e2 @ e3) = []"
      if "\<not> sr_TXE sr"
      unfolding nth app using t_same that r_tx by simp
    show "rx_seq (ttys_states ?m' ! i) = rx_seq ?st @ [dr]"
      if "sr_RXNE sr" "length (rx_seq ?st) \<noteq> TTYS_RX_BUF_SIZE - 1"
      unfolding nth using r_push that t_rx by simp
    show "rx_seq (ttys_states ?m' ! i) = rx_seq ?st" if "\<not> sr_RXNE sr"
      unfolding nth using r_same that t_rx by simp
  qed
qed

subsection \<open>Sequences of operations\<close>

lemma ttys_putc_all_room:
  assumes "ttys_mod_ok m" and i: "i < TTYS_NUM_INSTANCES"
    and "length (tx_seq (ttys_states m ! i)) + length cs \<le> TTYS_TX_BUF_SIZE - 1"
  shows "\<exists>m'. ttys_putc_all i cs m = (replicate (length cs) (Inr 0), m') \<and> ttys_mod_ok m' \<and>
           tx_seq (ttys_states m' ! i) = tx_seq (ttys_states m ! i) @ cs \<and>
           rx_seq (ttys_states m' ! i) = rx_seq (ttys_states m ! i) \<and>
           uart_reg_base (ttys_states m' ! i) = uart_reg_base (ttys_states m ! i) \<and>
           cnts_u16 m' = cnts_u16 m"
  using assms(1,3)
proof (induction cs arbitrary: m)
  case Nil
  then show ?case by simp
next
  case (Cons c cs)
  from Cons.prems have room: "length (tx_seq (ttys_states m ! i)) \<noteq> TTYS_TX_BUF_SIZE - 1"
    by simp
  obtain e m1 where p: "ttys_putc i c m = (Inr 0, e, m1)" and ok1: "ttys_mod_ok m1"
    and tx1: "tx_seq (ttys_states m1 ! i) = tx_seq (ttys_states m ! i) @ [c]"
    and rx1: "rx_seq (ttys_states m1 ! i) = rx_seq (ttys_states m ! i)"
    and u1: "uart_reg_base (ttys_states m1 ! i) = uart_reg_base (ttys_states m ! i)"
    and c1: "cnts_u16 m1 = cnts_u16 m"
    using ttys_putc_room [OF Cons.prems(1) i room, of c] by metis
  have "length (tx_seq (ttys_states m1 ! i)) + length cs \<le> TTYS_TX_BUF_SIZE - 1"
    using Cons.prems(2) tx1 by simp
  from Cons.IH [OF ok1 this] obtain m2 where
    "ttys_putc_all i cs m1 = (replicate (length cs) (Inr 0), m2)" "ttys_mod_ok m2"
    "tx_seq (ttys_states m2 ! i) = tx_seq (ttys_states m1 ! i) @ cs"
    "rx_seq (ttys_states m2 ! i) = rx_seq (ttys_states m1 ! i)"
    "uart_reg_base (ttys_states m2 ! i) = uart_reg_base (ttys_states m1 ! i)"
    "cnts_u16 m2 = cnts_u16 m1"
    by blast
  then show ?case
    using p tx1 rx1 u1 c1 by simp
qed

lemma ttys_interrupt_all_tx:
  assumes "ttys_mod_ok m" and i: "i < TTYS_NUM_INSTANCES"
    and "uart_reg_base (ttys_states m ! i) \<noteq> None"
    and "list_all (\<lambda>x. sr_TXE (fst x)) xs"
    and "tx_seq (ttys_states m ! i) = bs @ rest" and "length xs = length bs"
  shows "\<exists>e m'. ttys_interrupt_all i irq xs m = (e, m') \<and> ttys_mod_ok m' \<and>
           dr_writes e = bs \<and> tx_seq (ttys_states m' ! i) = rest"
  using assms(1,3-)
proof (induction xs arbitrary: m bs)
  case Nil
  then show ?case by simp
next
  case (Cons x xs)
  from Cons.prems(5) obtain b bs' where bs: "bs = b # bs'" and len: "length xs = length bs'"
    by (cases bs) simp_all
  from Cons.prems(3) have txe: "sr_TXE (fst x)" and rest_txe: "list_all (\<lambda>x. sr_TXE (fst x)) xs"
    by simp_all
  have hd: "tx_seq (ttys_states m ! i) = b # (bs' @ rest)"
    using Cons.prems(4) bs by simp
  obtain e1 m1 where q: "ttys_interrupt i irq (fst x) (snd x) m = (e1, m1)"
    and ok1: "ttys_mod_ok m1"
    and u1: "uart_reg_base (ttys_states m1 ! i) = uart_reg_base (ttys_states m ! i)"
    and w1: "dr_writes e1 = [b]" and tx1: "tx_seq (ttys_states m1 ! i) = bs' @ rest"
    using ttys_interrupt_props [OF Cons.prems(1) i Cons.prems(2), of irq "fst x" "snd x"]
      txe hd by metis
  have op1: "uart_reg_base (ttys_states m1 ! i) \<noteq> None"
    using u1 Cons.prems(2) by simp
  from Cons.IH [OF ok1 op1 rest_txe tx1 len] obtain e2 m2 where
    "ttys_interrupt_all i irq xs m1 = (e2, m2)" "ttys_mod_ok m2" "dr_writes e2 = bs'"
    "tx_seq (ttys_states m2 ! i) = rest"
    by blast
  then show ?case
    using q w1 bs by (simp add: dr_writes_append)
qed

lemma rx_seq_length_le: "ttys_state_ok st \<Longrightarrow> length (rx_seq st) \<le> TTYS_RX_BUF_SIZE - 1"
  by (simp add: rx_seq_def length_ring_seq ttys_state_ok_def TTYS_RX_BUF_SIZE_def)

lemma ttys_interrupt_all_rx:
  assumes "ttys_mod_ok m" and i: "i < TTYS_NUM_INSTANCES"
    and "uart_reg_base (ttys_states m ! i) \<noteq> None"
    and "list_all (\<lambda>x. sr_RXNE (fst x)) xs"
    and "length (rx_seq (ttys_states m ! i)) + length xs \<le> TTYS_RX_BUF_SIZE - 1"
  shows "\<exists>e m'. ttys_interrupt_all i irq xs m = (e, m') \<and> ttys_mod_ok m' \<and>
           rx_seq (ttys_states m' ! i) = rx_seq (ttys_states m ! i) @ map snd xs"
  using assms(1,3-)
proof (induction xs arbitrary: m)
  case Nil
  then show ?case by simp
next
  case (Cons x xs)
  from Cons.prems(3) have rxne: "sr_RXNE (fst x)" and rest_rxne: "list_all (\<lambda>x. sr_RXNE (fst x)) xs"
    by simp_all
  from Cons.prems(4) have room: "length (rx_seq (ttys_states m ! i)) \<noteq> TTYS_RX_BUF_SIZE - 1"
    by simp
  obtain e1 m1 where q: "ttys_interrupt i irq (fst x) (snd x) m = (e1, m1)"
    and ok1: "ttys_mod_ok m1"
    and u1: "uart_reg_base (ttys_states m1 ! i) = uart_reg_base (ttys_states m ! i)"
    and rx1: "rx_seq (ttys_states m1 ! i) = rx_seq (ttys_states m ! i) @ [snd x]"
    using ttys_interrupt_props [OF Cons.prems(1) i Cons.prems(2), of irq "fst x" "snd x"]
      rxne room by metis
  have op1: "uart_reg_base (ttys_states m1 ! i) \<noteq> None"
    using u1 Cons.prems(2) by simp
  have room1: "length (rx_seq (ttys_states m1 ! i)) + length xs \<le> TTYS_RX_BUF_SIZE - 1"
    using Cons.prems(4) rx1 by simp
  from Cons.IH [OF ok1 op1 rest_rxne room1] obtain e2 m2 where
    "ttys_interrupt_all i irq xs m1 = (e2, m2)" "ttys_mod_ok m2"
    "rx_seq (ttys_states m2 ! i) = rx_seq (ttys_states m1 ! i) @ map snd xs"
    by blast
  then show ?case
    using q rx1 by simp
qed

lemma ttys_getc_n_pop:
  assumes "ttys_mod_ok m" and i: "i < TTYS_NUM_INSTANCES"
    and "rx_seq (ttys_states m ! i) = bs @ rest"
  shows "\<exists>m'. ttys_getc_n i (length bs) m = (map (\<lambda>b. (Inr 1, Some b)) bs, m') \<and>
           ttys_mod_ok m' \<and> rx_seq (ttys_states m' ! i) = rest"
  using assms(1,3)
proof (induction bs arbitrary: m)
  case Nil
  then show ?case by simp
next
  case (Cons b bs)
  have hd: "rx_seq (ttys_states m ! i) = b # (bs @ rest)"
    using Cons.prems(2) by simp
  obtain m1 where g: "ttys_getc i m = (Inr 1, Some b, m1)" and ok1: "ttys_mod_ok m1"
    and rx1: "rx_seq (ttys_states m1 ! i) = bs @ rest"
    using ttys_getc_pop [OF Cons.prems(1) i hd] by metis
  from Cons.IH [OF ok1 rx1] obtain m2 where
    "ttys_getc_n i (length bs) m1 = (map (\<lambda>b. (Inr 1, Some b)) bs, m2)" "ttys_mod_ok m2"
    "rx_seq (ttys_states m2 ! i) = rest"
    by blast
  then show ?case
    using g by simp
qed

lemma tx_full_mod_iff:
  assumes "ttys_state_ok st"
  shows "(unat (tx_buf_put_idx st) + 1) mod TTYS_TX_BUF_SIZE = unat (tx_buf_get_idx st) \<longleftrightarrow>
         length (tx_seq st) = TTYS_TX_BUF_SIZE - 1"
  using assms ring_full_iff [of "unat (tx_buf_get_idx st)" "tx_buf st" "unat (tx_buf_put_idx st)"]
  by (simp add: ttys_state_ok_def tx_seq_def)

lemma INC_SAT_U16_unat: "unat (INC_SAT_U16 v) = min 65535 (unat v + 1)"
proof (cases "v = 0xFFFF")
  case True
  then show ?thesis by (simp add: INC_SAT_U16_def)
next
  case False
  then have "unat v \<noteq> unat (0xFFFF :: u16)"
    by (simp only: word_unat_eq_iff [symmetric] not_False_eq_True)
  then have "unat v \<noteq> 65535" by simp
  moreover have "unat v < 65536"
    using unsigned_less [of v, where ?'a = nat] by simp
  ultimately have lt: "unat v < 65535" by simp
  then have "unat (v + 1) = unat v + 1"
    by (simp add: unat_word_ariths)
  with False lt show ?thesis by (simp add: INC_SAT_U16_def)
qed

lemma ttys_putc_all_full:
  assumes ok: "ttys_mod_ok m" and i: "i < TTYS_NUM_INSTANCES"
    and full: "length (tx_seq (ttys_states m ! i)) = TTYS_TX_BUF_SIZE - 1"
  shows "fst (ttys_putc_all i cs m) = replicate (length cs) (Inl MOD_ERR_BUF_OVERRUN) \<and>
         ttys_states (snd (ttys_putc_all i cs m)) = ttys_states m \<and>
         length (cnts_u16 (snd (ttys_putc_all i cs m))) = NUM_U16_PMS \<and>
         (\<forall>k. k \<noteq> CNT_TX_BUF_OVERRUN \<longrightarrow>
            cnts_u16 (snd (ttys_putc_all i cs m)) ! k = cnts_u16 m ! k) \<and>
         unat (cnts_u16 (snd (ttys_putc_all i cs m)) ! CNT_TX_BUF_OVERRUN) =
           min 65535 (unat (cnts_u16 m ! CNT_TX_BUF_OVERRUN) + length cs)"
  using ok full
proof (induction cs arbitrary: m)
  case Nil
  then show ?case
    using unsigned_less [of "cnts_u16 m ! CNT_TX_BUF_OVERRUN", where ?'a = nat] by (simp add: ttys_mod_ok_def)
next
  case (Cons c cs)
  let ?m1 = "m\<lparr>cnts_u16 := (cnts_u16 m)[CNT_TX_BUF_OVERRUN :=
          INC_SAT_U16 (cnts_u16 m ! CNT_TX_BUF_OVERRUN)]\<rparr>"
  have p: "ttys_putc i c m = (Inl MOD_ERR_BUF_OVERRUN, [], ?m1)"
    using Cons.prems i by (intro ttys_putc_full)
  have ok1: "ttys_mod_ok ?m1" and full1: "length (tx_seq (ttys_states ?m1 ! i)) = TTYS_TX_BUF_SIZE - 1"
    using Cons.prems by (simp_all add: ttys_mod_ok_def)
  have len: "CNT_TX_BUF_OVERRUN < length (cnts_u16 m)"
    using Cons.prems(1) by (simp add: ttys_mod_ok_def CNT_TX_BUF_OVERRUN_def NUM_U16_PMS_def)
  obtain rcs m2 where pa: "ttys_putc_all i cs ?m1 = (rcs, m2)"
    by (cases "ttys_putc_all i cs ?m1")
  have all: "ttys_putc_all i (c # cs) m = (Inl MOD_ERR_BUF_OVERRUN # rcs, m2)"
    using p pa by simp
  from Cons.IH [OF ok1 full1] have
    rcs: "rcs = replicate (length cs) (Inl MOD_ERR_BUF_OVERRUN)"
    and sts: "ttys_states m2 = ttys_states m"
    and ln: "length (cnts_u16 m2) = NUM_U16_PMS"
    and oth: "\<And>k. k \<noteq> CNT_TX_BUF_OVERRUN \<Longrightarrow> cnts_u16 m2 ! k = cnts_u16 m ! k"
    and cnt: "unat (cnts_u16 m2 ! CNT_TX_BUF_OVERRUN) =
       min 65535 (unat (INC_SAT_U16 (cnts_u16 m ! CNT_TX_BUF_OVERRUN)) + length cs)"
    using len by (simp_all add: pa)
  have "unat (cnts_u16 m2 ! CNT_TX_BUF_OVERRUN) =
      min 65535 (unat (cnts_u16 m ! CNT_TX_BUF_OVERRUN) + length (c # cs))"
    unfolding cnt INC_SAT_U16_unat by simp
  then show ?case
    unfolding all using rcs sts ln oth by simp
qed

lemma ttys_tx_round_trip:
  assumes ok: "ttys_mod_ok m" and i: "i < TTYS_NUM_INSTANCES"
    and op: "uart_reg_base (ttys_states m ! i) \<noteq> None"
    and emp: "tx_buf_get_idx (ttys_states m ! i) = tx_buf_put_idx (ttys_states m ! i)"
    and len: "length cs \<le> TTYS_TX_BUF_SIZE - 1" and xs: "length xs = length cs"
    and txe: "list_all (\<lambda>x. sr_TXE (fst x)) xs"
  shows "fst (ttys_putc_all i cs m) = replicate (length cs) (Inr 0) \<and>
         dr_writes (fst (ttys_interrupt_all i irq xs (snd (ttys_putc_all i cs m)))) = cs \<and>
         tx_buf_get_idx (ttys_states
             (snd (ttys_interrupt_all i irq xs (snd (ttys_putc_all i cs m)))) ! i) =
           tx_buf_put_idx (ttys_states
             (snd (ttys_interrupt_all i irq xs (snd (ttys_putc_all i cs m)))) ! i)"
proof -
  from ttys_mod_ok_nth [OF ok i] have sok: "ttys_state_ok (ttys_states m ! i)"
    by simp
  have e: "tx_seq (ttys_states m ! i) = []"
    using tx_empty_iff [OF sok] emp by simp
  then have room: "length (tx_seq (ttys_states m ! i)) + length cs \<le> TTYS_TX_BUF_SIZE - 1"
    using len by simp
  from ttys_putc_all_room [OF ok i room] obtain m1 where
    p: "ttys_putc_all i cs m = (replicate (length cs) (Inr 0), m1)" and ok1: "ttys_mod_ok m1"
    and tx1: "tx_seq (ttys_states m1 ! i) = cs @ []"
    and op1: "uart_reg_base (ttys_states m1 ! i) \<noteq> None"
    using e op by auto
  from ttys_interrupt_all_tx [OF ok1 i op1 txe tx1 xs, of irq] obtain e2 m2 where
    q: "ttys_interrupt_all i irq xs m1 = (e2, m2)" and ok2: "ttys_mod_ok m2"
    and w: "dr_writes e2 = cs" and tx2: "tx_seq (ttys_states m2 ! i) = []"
    by auto
  from ttys_mod_ok_nth [OF ok2 i] have "ttys_state_ok (ttys_states m2 ! i)"
    by simp
  then have "tx_buf_get_idx (ttys_states m2 ! i) = tx_buf_put_idx (ttys_states m2 ! i)"
    using tx2 by (simp add: tx_empty_iff)
  with p q w show ?thesis
    by simp
qed

lemma ttys_rx_round_trip:
  assumes ok: "ttys_mod_ok m" and i: "i < TTYS_NUM_INSTANCES"
    and op: "uart_reg_base (ttys_states m ! i) \<noteq> None"
    and emp: "rx_buf_get_idx (ttys_states m ! i) = rx_buf_put_idx (ttys_states m ! i)"
    and len: "length ys \<le> TTYS_RX_BUF_SIZE - 1"
    and rxne: "list_all (\<lambda>x. sr_RXNE (fst x)) ys"
  shows "fst (ttys_getc_n i (length ys) (snd (ttys_interrupt_all i irq ys m))) =
           map (\<lambda>x. (Inr 1, Some (snd x))) ys \<and>
         rx_buf_get_idx (ttys_states
             (snd (ttys_getc_n i (length ys) (snd (ttys_interrupt_all i irq ys m)))) ! i) =
           rx_buf_put_idx (ttys_states
             (snd (ttys_getc_n i (length ys) (snd (ttys_interrupt_all i irq ys m)))) ! i)"
proof -
  from ttys_mod_ok_nth [OF ok i] have sok: "ttys_state_ok (ttys_states m ! i)"
    by simp
  have e: "rx_seq (ttys_states m ! i) = []"
    using rx_empty_iff [OF sok] emp by simp
  then have room: "length (rx_seq (ttys_states m ! i)) + length ys \<le> TTYS_RX_BUF_SIZE - 1"
    using len by simp
  from ttys_interrupt_all_rx [OF ok i op rxne room, of irq] obtain e1 m1 where
    q: "ttys_interrupt_all i irq ys m = (e1, m1)" and ok1: "ttys_mod_ok m1"
    and rx1: "rx_seq (ttys_states m1 ! i) = map snd ys @ []"
    using e by auto
  from ttys_getc_n_pop [OF ok1 i rx1] obtain m2 where
    g: "ttys_getc_n i (length ys) m1 = (map (\<lambda>b. (Inr 1, Some b)) (map snd ys), m2)"
    and ok2: "ttys_mod_ok m2" and rx2: "rx_seq (ttys_states m2 ! i) = []"
    by auto
  from ttys_mod_ok_nth [OF ok2 i] have "ttys_state_ok (ttys_states m2 ! i)"
    by simp
  then have "rx_buf_get_idx (ttys_states m2 ! i) = rx_buf_put_idx (ttys_states m2 ! i)"
    using rx2 by (simp add: rx_empty_iff)
  with q g show ?thesis
    by (simp add: comp_def)
qed

text \<open>Claim C4: ring buffer round trip, for both rings and their producer and consumer in
  the code. Transmit ring: from any state with equal get and put indices, \<open>ttys_putc\<close> of
  \<open>K \<le> TTYS_TX_BUF_SIZE - 1\<close> characters succeeds every time, and \<open>K\<close> interrupts with
  the transmit-ready flag then write exactly these characters to the data register, in
  order, and leave the ring empty. Receive ring: \<open>K \<le> TTYS_RX_BUF_SIZE - 1\<close> interrupts
  with the receive-ready flag enqueue the characters read, and \<open>K\<close> calls of \<open>ttys_getc\<close>
  then return them in order and leave the ring empty. The index offset is arbitrary, so
  the runs that wrap around the end of the array are covered.\<close>

theorem ttys_ring_round_trip:
  assumes "ttys_mod_ok m" and "i < TTYS_NUM_INSTANCES"
    and "uart_reg_base (ttys_states m ! i) \<noteq> None"
  shows "(tx_buf_get_idx (ttys_states m ! i) = tx_buf_put_idx (ttys_states m ! i) \<and>
          length cs \<le> TTYS_TX_BUF_SIZE - 1 \<and>
          length xs = length cs \<and> list_all (\<lambda>x. sr_TXE (fst x)) xs \<longrightarrow>
            fst (ttys_putc_all i cs m) = replicate (length cs) (Inr 0) \<and>
            dr_writes (fst (ttys_interrupt_all i irq xs (snd (ttys_putc_all i cs m)))) = cs \<and>
            tx_buf_get_idx (ttys_states
                (snd (ttys_interrupt_all i irq xs (snd (ttys_putc_all i cs m)))) ! i) =
              tx_buf_put_idx (ttys_states
                (snd (ttys_interrupt_all i irq xs (snd (ttys_putc_all i cs m)))) ! i)) \<and>
         (rx_buf_get_idx (ttys_states m ! i) = rx_buf_put_idx (ttys_states m ! i) \<and>
          length ys \<le> TTYS_RX_BUF_SIZE - 1 \<and> list_all (\<lambda>x. sr_RXNE (fst x)) ys \<longrightarrow>
            fst (ttys_getc_n i (length ys) (snd (ttys_interrupt_all i irq ys m))) =
              map (\<lambda>x. (Inr 1, Some (snd x))) ys \<and>
            rx_buf_get_idx (ttys_states
                (snd (ttys_getc_n i (length ys) (snd (ttys_interrupt_all i irq ys m)))) ! i) =
              rx_buf_put_idx (ttys_states
                (snd (ttys_getc_n i (length ys) (snd (ttys_interrupt_all i irq ys m)))) ! i))"
  using ttys_tx_round_trip [OF assms, of cs xs irq] ttys_rx_round_trip [OF assms, of ys irq]
  by blast

lemma ttys_test_mod_ok:
  "unat txg < TTYS_TX_BUF_SIZE \<Longrightarrow> unat txp < TTYS_TX_BUF_SIZE \<Longrightarrow>
   unat rxg < TTYS_RX_BUF_SIZE \<Longrightarrow> unat rxp < TTYS_RX_BUF_SIZE \<Longrightarrow>
   ttys_mod_ok (ttys_test_mod txg txp rxg rxp cnt)"
  by (simp add: ttys_mod_ok_def ttys_test_mod_def ttys_test_state_def ttys_state_ok_def
      list_all_iff TTYS_NUM_INSTANCES_def NUM_U16_PMS_def)

theorem ttys_ring_round_trip_witness:
  "dr_writes (fst (ttys_interrupt_all 1 38
       [(sr_only_TXE, 0), (sr_only_TXE, 0), (sr_only_TXE, 0)]
       (snd (ttys_putc_all 1 [0x41, 0x42, 0x43] (ttys_test_mod 1022 1022 78 78 0))))) =
     [0x41, 0x42, 0x43] \<and>
   tx_buf_put_idx (ttys_states
       (snd (ttys_putc_all 1 [0x41, 0x42, 0x43] (ttys_test_mod 1022 1022 78 78 0))) ! 1) = 1 \<and>
   fst (ttys_getc_n 1 3 (snd (ttys_interrupt_all 1 38
       [(sr_only_RXNE, 0x61), (sr_only_RXNE, 0x62), (sr_only_RXNE, 0x63)]
       (ttys_test_mod 1022 1022 78 78 0)))) =
     [(Inr 1, Some 0x61), (Inr 1, Some 0x62), (Inr 1, Some 0x63)]"
proof -
  let ?m = "ttys_test_mod 1022 1022 78 78 0"
  have ok: "ttys_mod_ok ?m"
    by (rule ttys_test_mod_ok) (simp_all add: TTYS_TX_BUF_SIZE_def TTYS_RX_BUF_SIZE_def)
  have i: "1 < TTYS_NUM_INSTANCES"
    by (simp add: TTYS_NUM_INSTANCES_def)
  have op: "uart_reg_base (ttys_states ?m ! 1) \<noteq> None"
    by (simp add: ttys_test_mod_def ttys_test_state_def TTYS_NUM_INSTANCES_def)
  have wrap: "tx_buf_put_idx (ttys_states
       (snd (ttys_putc_all 1 [0x41, 0x42, 0x43] ?m)) ! 1) = 1"
    by (simp add: ttys_putc_def ttys_test_mod_def ttys_test_state_def
      TTYS_NUM_INSTANCES_def TTYS_TX_BUF_SIZE_def Let_def)
  have e: "tx_buf_get_idx (ttys_states ?m ! 1) = tx_buf_put_idx (ttys_states ?m ! 1)"
    "rx_buf_get_idx (ttys_states ?m ! 1) = rx_buf_put_idx (ttys_states ?m ! 1)"
    by (simp_all add: ttys_test_mod_def ttys_test_state_def TTYS_NUM_INSTANCES_def)
  have l: "list_all (\<lambda>x. sr_TXE (fst x)) [(sr_only_TXE, 0), (sr_only_TXE, 0), (sr_only_TXE, 0)]"
    "list_all (\<lambda>x. sr_RXNE (fst x))
       [(sr_only_RXNE, 0x61), (sr_only_RXNE, 0x62), (sr_only_RXNE, 0x63)]"
    by (simp_all add: sr_only_TXE_def sr_only_RXNE_def)
  show ?thesis
    using ttys_ring_round_trip [OF ok i op, where cs = "[0x41, 0x42, 0x43]"
        and xs = "[(sr_only_TXE, 0), (sr_only_TXE, 0), (sr_only_TXE, 0)]"
        and ys = "[(sr_only_RXNE, 0x61), (sr_only_RXNE, 0x62), (sr_only_RXNE, 0x63)]"
        and irq = 38] wrap e l
    by (simp add: TTYS_TX_BUF_SIZE_def TTYS_RX_BUF_SIZE_def numeral_3_eq_3
        del: ttys_putc_all.simps ttys_interrupt_all.simps ttys_getc_n.simps)
qed

text \<open>Claim C5, as amended: whenever the transmit ring is full
  (\<open>(put + 1) mod TTYS_TX_BUF_SIZE = get\<close>), \<open>ttys_putc\<close> returns \<open>MOD_ERR_BUF_OVERRUN\<close>,
  leaves every buffer and index unchanged and increments the transmit-overrun counter,
  saturating at 65535. Enqueueing \<open>n\<close> characters into a full ring leaves the state of
  every instance unchanged, fails every time, and moves the counter from \<open>v\<close> to
  \<open>min 65535 (v + n)\<close>: by exactly \<open>n\<close> only while the counter does not saturate.\<close>

theorem ttys_putc_overrun:
  assumes ok: "ttys_mod_ok m" and i: "i < TTYS_NUM_INSTANCES"
    and full: "(unat (tx_buf_put_idx (ttys_states m ! i)) + 1) mod TTYS_TX_BUF_SIZE =
               unat (tx_buf_get_idx (ttys_states m ! i))"
  shows "ttys_putc i c m =
           (Inl MOD_ERR_BUF_OVERRUN, [],
            m\<lparr>cnts_u16 := (cnts_u16 m)[CNT_TX_BUF_OVERRUN :=
                 INC_SAT_U16 (cnts_u16 m ! CNT_TX_BUF_OVERRUN)]\<rparr>) \<and>
         unat (INC_SAT_U16 (cnts_u16 m ! CNT_TX_BUF_OVERRUN)) =
           min 65535 (unat (cnts_u16 m ! CNT_TX_BUF_OVERRUN) + 1) \<and>
         fst (ttys_putc_all i cs m) = replicate (length cs) (Inl MOD_ERR_BUF_OVERRUN) \<and>
         ttys_states (snd (ttys_putc_all i cs m)) = ttys_states m \<and>
         (\<forall>k. k \<noteq> CNT_TX_BUF_OVERRUN \<longrightarrow>
            cnts_u16 (snd (ttys_putc_all i cs m)) ! k = cnts_u16 m ! k) \<and>
         unat (cnts_u16 (snd (ttys_putc_all i cs m)) ! CNT_TX_BUF_OVERRUN) =
           min 65535 (unat (cnts_u16 m ! CNT_TX_BUF_OVERRUN) + length cs)"
proof -
  from ttys_mod_ok_nth [OF ok i] have sok: "ttys_state_ok (ttys_states m ! i)"
    by simp
  have f: "length (tx_seq (ttys_states m ! i)) = TTYS_TX_BUF_SIZE - 1"
    using tx_full_mod_iff [OF sok] full by simp
  show ?thesis
    using ttys_putc_full [OF ok i f, of c] ttys_putc_all_full [OF ok i f, of cs]
      INC_SAT_U16_unat [of "cnts_u16 m ! CNT_TX_BUF_OVERRUN"]
    by simp
qed

theorem ttys_putc_overrun_witness:
  "fst (ttys_putc_all 0 [0x41, 0x42] (ttys_test_mod 5 4 0 0 65534)) =
     [Inl MOD_ERR_BUF_OVERRUN, Inl MOD_ERR_BUF_OVERRUN] \<and>
   ttys_states (snd (ttys_putc_all 0 [0x41, 0x42] (ttys_test_mod 5 4 0 0 65534))) =
     ttys_states (ttys_test_mod 5 4 0 0 65534) \<and>
   unat (cnts_u16 (snd (ttys_putc_all 0 [0x41, 0x42] (ttys_test_mod 5 4 0 0 65534))) !
     CNT_TX_BUF_OVERRUN) = 65535 \<and>
   unat (cnts_u16 (snd (ttys_putc_all 0 [0x41, 0x42, 0x43] (ttys_test_mod 5 4 0 0 7))) !
     CNT_TX_BUF_OVERRUN) = 10"
proof -
  have ok: "ttys_mod_ok (ttys_test_mod 5 4 0 0 cnt)" for cnt
    by (rule ttys_test_mod_ok) (simp_all add: TTYS_TX_BUF_SIZE_def TTYS_RX_BUF_SIZE_def)
  have i: "0 < TTYS_NUM_INSTANCES"
    by (simp add: TTYS_NUM_INSTANCES_def)
  have full: "(unat (tx_buf_put_idx (ttys_states (ttys_test_mod 5 4 0 0 cnt) ! 0)) + 1)
        mod TTYS_TX_BUF_SIZE =
      unat (tx_buf_get_idx (ttys_states (ttys_test_mod 5 4 0 0 cnt) ! 0))" for cnt
    by (simp add: ttys_test_mod_def ttys_test_state_def TTYS_NUM_INSTANCES_def
        TTYS_TX_BUF_SIZE_def)
  have c: "cnts_u16 (ttys_test_mod 5 4 0 0 cnt) ! CNT_TX_BUF_OVERRUN = cnt" for cnt
    by (simp add: ttys_test_mod_def NUM_U16_PMS_def CNT_TX_BUF_OVERRUN_def)
  show ?thesis
    using ttys_putc_overrun [OF ok [of 65534] i full, where cs = "[0x41, 0x42]" and c = 0]
      ttys_putc_overrun [OF ok [of 7] i full, where cs = "[0x41, 0x42, 0x43]" and c = 0]
    by (simp add: c del: ttys_putc_all.simps)
qed

text \<open>The claim as stated ("increments the counter by exactly \<open>n\<close>") fails at a saturated
  counter: one more dropped character leaves it at 65535.\<close>

theorem ttys_putc_overrun_counterexample:
  "ttys_mod_ok (ttys_test_mod 5 4 0 0 65535) \<and>
   (unat (tx_buf_put_idx (ttys_states (ttys_test_mod 5 4 0 0 65535) ! 0)) + 1)
      mod TTYS_TX_BUF_SIZE =
     unat (tx_buf_get_idx (ttys_states (ttys_test_mod 5 4 0 0 65535) ! 0)) \<and>
   fst (ttys_putc_all 0 [0x41] (ttys_test_mod 5 4 0 0 65535)) = [Inl MOD_ERR_BUF_OVERRUN] \<and>
   unat (cnts_u16 (snd (ttys_putc_all 0 [0x41] (ttys_test_mod 5 4 0 0 65535))) !
       CNT_TX_BUF_OVERRUN) \<noteq>
     unat (cnts_u16 (ttys_test_mod 5 4 0 0 65535) ! CNT_TX_BUF_OVERRUN) + 1"
proof -
  have "ttys_mod_ok (ttys_test_mod 5 4 0 0 65535)"
    by (rule ttys_test_mod_ok) (simp_all add: TTYS_TX_BUF_SIZE_def TTYS_RX_BUF_SIZE_def)
  then show ?thesis
    by (simp add: ttys_putc_def ttys_test_mod_def ttys_test_state_def INC_SAT_U16_def
        TTYS_NUM_INSTANCES_def TTYS_TX_BUF_SIZE_def NUM_U16_PMS_def CNT_TX_BUF_OVERRUN_def
        Let_def)
qed

lemma rx_full_mod_iff:
  assumes "ttys_state_ok st"
  shows "(unat (rx_buf_put_idx st) + 1) mod TTYS_RX_BUF_SIZE = unat (rx_buf_get_idx st) \<longleftrightarrow>
         length (rx_seq st) = TTYS_RX_BUF_SIZE - 1"
  using assms ring_full_iff [of "unat (rx_buf_get_idx st)" "rx_buf st" "unat (rx_buf_put_idx st)"]
  by (simp add: ttys_state_ok_def rx_seq_def)

lemma ttys_interrupt_err_nth:
  assumes "length cnts = NUM_U16_PMS"
  shows "snd (ttys_interrupt_err sr cnts) ! CNT_RX_UART_ORE =
           (if sr_ORE sr then INC_SAT_U16 (cnts ! CNT_RX_UART_ORE) else cnts ! CNT_RX_UART_ORE)"
    and "snd (ttys_interrupt_err sr cnts) ! CNT_RX_UART_NE =
           (if sr_NE sr then INC_SAT_U16 (cnts ! CNT_RX_UART_NE) else cnts ! CNT_RX_UART_NE)"
    and "snd (ttys_interrupt_err sr cnts) ! CNT_RX_UART_FE =
           (if sr_FE sr then INC_SAT_U16 (cnts ! CNT_RX_UART_FE) else cnts ! CNT_RX_UART_FE)"
    and "snd (ttys_interrupt_err sr cnts) ! CNT_RX_UART_PE =
           (if sr_PE sr then INC_SAT_U16 (cnts ! CNT_RX_UART_PE) else cnts ! CNT_RX_UART_PE)"
    and "snd (ttys_interrupt_err sr cnts) ! CNT_TX_BUF_OVERRUN = cnts ! CNT_TX_BUF_OVERRUN"
    and "snd (ttys_interrupt_err sr cnts) ! CNT_RX_BUF_OVERRUN = cnts ! CNT_RX_BUF_OVERRUN"
  using assms
  by (simp_all add: ttys_interrupt_err_def Let_def NUM_U16_PMS_def CNT_RX_UART_ORE_def
      CNT_RX_UART_NE_def CNT_RX_UART_FE_def CNT_RX_UART_PE_def CNT_TX_BUF_OVERRUN_def
      CNT_RX_BUF_OVERRUN_def)

lemma ttys_interrupt_rx_cnts:
  assumes ok: "ttys_state_ok st" and len: "length cnts = NUM_U16_PMS"
  shows "snd (snd (ttys_interrupt_rx sr dr (st, cnts))) =
     (if sr_RXNE sr \<and> (unat (rx_buf_put_idx st) + 1) mod TTYS_RX_BUF_SIZE = unat (rx_buf_get_idx st)
      then cnts[CNT_RX_BUF_OVERRUN := INC_SAT_U16 (cnts ! CNT_RX_BUF_OVERRUN)] else cnts)"
  using rx_full_iff [OF ok] rx_full_mod_iff [OF ok]
  by (simp add: ttys_interrupt_rx_def Let_def)

lemma ttys_interrupt_cnts:
  assumes ok: "ttys_mod_ok m" and a: "a < TTYS_NUM_INSTANCES"
    and op: "uart_reg_base (ttys_states m ! a) \<noteq> None"
  shows "cnts_u16 (snd (ttys_interrupt a irq sr dr m)) =
     snd (ttys_interrupt_err sr
       (if sr_RXNE sr \<and> (unat (rx_buf_put_idx (ttys_states m ! a)) + 1) mod TTYS_RX_BUF_SIZE =
             unat (rx_buf_get_idx (ttys_states m ! a))
        then (cnts_u16 m)[CNT_RX_BUF_OVERRUN := INC_SAT_U16 (cnts_u16 m ! CNT_RX_BUF_OVERRUN)]
        else cnts_u16 m))"
proof -
  from ttys_mod_ok_nth [OF ok a] have sok: "ttys_state_ok (ttys_states m ! a)" by simp
  have len: "length (cnts_u16 m) = NUM_U16_PMS" using ok by (simp add: ttys_mod_ok_def)
  show ?thesis
    using a op ttys_interrupt_rx_cnts [OF sok len, of sr dr]
    by (auto simp: ttys_interrupt_def Let_def split: prod.splits)
qed

lemma ttys_interrupt_other:
  "a \<noteq> b \<Longrightarrow> ttys_states (snd (ttys_interrupt a irq sr dr m)) ! b = ttys_states m ! b"
  by (auto simp: ttys_interrupt_def Let_def split: prod.splits)

lemma ttys_putc_other:
  "a \<noteq> b \<Longrightarrow> ttys_states (snd (snd (ttys_putc a c m))) ! b = ttys_states m ! b"
  by (auto simp: ttys_putc_def Let_def)

text \<open>Claim C2, as amended: the error and overrun counters are not per port. The module
  keeps one array \<open>cnts_u16\<close> for all instances (the source: "Currently these are common
  to all instances"). An event on port \<open>a\<close> (\<open>ttys_putc\<close> on a full transmit ring, an
  interrupt that drops a received character, a hardware error flag) increments, saturating,
  the single module-wide counter of that kind; what it leaves unchanged for another port
  \<open>b\<close> is that port's own state: its buffers, indices and configuration.\<close>

theorem ttys_counters_module_wide:
  assumes ok: "ttys_mod_ok m" and a: "a < TTYS_NUM_INSTANCES" and ab: "a \<noteq> b"
  shows "ttys_states (snd (snd (ttys_putc a c m))) ! b = ttys_states m ! b \<and>
         ttys_states (snd (ttys_interrupt a irq sr dr m)) ! b = ttys_states m ! b \<and>
         ((unat (tx_buf_put_idx (ttys_states m ! a)) + 1) mod TTYS_TX_BUF_SIZE =
            unat (tx_buf_get_idx (ttys_states m ! a)) \<longrightarrow>
          cnts_u16 (snd (snd (ttys_putc a c m))) =
            (cnts_u16 m)[CNT_TX_BUF_OVERRUN := INC_SAT_U16 (cnts_u16 m ! CNT_TX_BUF_OVERRUN)]) \<and>
         (uart_reg_base (ttys_states m ! a) \<noteq> None \<longrightarrow>
          (sr_RXNE sr \<and> (unat (rx_buf_put_idx (ttys_states m ! a)) + 1) mod TTYS_RX_BUF_SIZE =
             unat (rx_buf_get_idx (ttys_states m ! a)) \<longrightarrow>
           cnts_u16 (snd (ttys_interrupt a irq sr dr m)) ! CNT_RX_BUF_OVERRUN =
             INC_SAT_U16 (cnts_u16 m ! CNT_RX_BUF_OVERRUN)) \<and>
          (sr_ORE sr \<longrightarrow> cnts_u16 (snd (ttys_interrupt a irq sr dr m)) ! CNT_RX_UART_ORE =
             INC_SAT_U16 (cnts_u16 m ! CNT_RX_UART_ORE)) \<and>
          (sr_NE sr \<longrightarrow> cnts_u16 (snd (ttys_interrupt a irq sr dr m)) ! CNT_RX_UART_NE =
             INC_SAT_U16 (cnts_u16 m ! CNT_RX_UART_NE)) \<and>
          (sr_FE sr \<longrightarrow> cnts_u16 (snd (ttys_interrupt a irq sr dr m)) ! CNT_RX_UART_FE =
             INC_SAT_U16 (cnts_u16 m ! CNT_RX_UART_FE)) \<and>
          (sr_PE sr \<longrightarrow> cnts_u16 (snd (ttys_interrupt a irq sr dr m)) ! CNT_RX_UART_PE =
             INC_SAT_U16 (cnts_u16 m ! CNT_RX_UART_PE)))"
proof -
  from ttys_mod_ok_nth [OF ok a] have sok: "ttys_state_ok (ttys_states m ! a)" by simp
  have len: "length (cnts_u16 m) = NUM_U16_PMS" using ok by (simp add: ttys_mod_ok_def)
  have len': "length ((cnts_u16 m)[CNT_RX_BUF_OVERRUN := v]) = NUM_U16_PMS" for v
    using len by simp
  have putc: "cnts_u16 (snd (snd (ttys_putc a c m))) =
            (cnts_u16 m)[CNT_TX_BUF_OVERRUN := INC_SAT_U16 (cnts_u16 m ! CNT_TX_BUF_OVERRUN)]"
    if "(unat (tx_buf_put_idx (ttys_states m ! a)) + 1) mod TTYS_TX_BUF_SIZE =
            unat (tx_buf_get_idx (ttys_states m ! a))"
    using ttys_putc_full [OF ok a, of c] tx_full_mod_iff [OF sok] that by simp
  have irq: "cnts_u16 (snd (ttys_interrupt a irq sr dr m)) ! CNT_RX_BUF_OVERRUN =
             INC_SAT_U16 (cnts_u16 m ! CNT_RX_BUF_OVERRUN)"
    if "uart_reg_base (ttys_states m ! a) \<noteq> None" "sr_RXNE sr"
      "(unat (rx_buf_put_idx (ttys_states m ! a)) + 1) mod TTYS_RX_BUF_SIZE =
             unat (rx_buf_get_idx (ttys_states m ! a))"
  proof -
    have "cnts_u16 (snd (ttys_interrupt a irq sr dr m)) ! CNT_RX_BUF_OVERRUN =
        (cnts_u16 m)[CNT_RX_BUF_OVERRUN := INC_SAT_U16 (cnts_u16 m ! CNT_RX_BUF_OVERRUN)] !
          CNT_RX_BUF_OVERRUN"
      using that by (simp add: ttys_interrupt_cnts [OF ok a] ttys_interrupt_err_nth [OF len'])
    also have "\<dots> = INC_SAT_U16 (cnts_u16 m ! CNT_RX_BUF_OVERRUN)"
      using len by (simp add: NUM_U16_PMS_def CNT_RX_BUF_OVERRUN_def)
    finally show ?thesis .
  qed
  have err: "cnts_u16 (snd (ttys_interrupt a irq sr dr m)) ! k =
       snd (ttys_interrupt_err sr (cnts_u16 m)) ! k"
    if "uart_reg_base (ttys_states m ! a) \<noteq> None" "k < CNT_TX_BUF_OVERRUN" for k
    using that len
    by (simp add: ttys_interrupt_cnts [OF ok a] ttys_interrupt_err_def Let_def
        NUM_U16_PMS_def CNT_RX_BUF_OVERRUN_def CNT_TX_BUF_OVERRUN_def CNT_RX_UART_ORE_def
      CNT_RX_UART_NE_def CNT_RX_UART_FE_def CNT_RX_UART_PE_def nth_list_update)
  show ?thesis
    using ttys_putc_other [OF ab] ttys_interrupt_other [OF ab] putc irq
      err [of CNT_RX_UART_ORE] err [of CNT_RX_UART_NE] err [of CNT_RX_UART_FE]
      err [of CNT_RX_UART_PE] ttys_interrupt_err_nth [OF len, of sr]
    by (simp add: CNT_TX_BUF_OVERRUN_def CNT_RX_UART_ORE_def
      CNT_RX_UART_NE_def CNT_RX_UART_FE_def CNT_RX_UART_PE_def)
qed

theorem ttys_counters_module_wide_witness:
  "ttys_states (snd (snd (ttys_putc 0 0x41 (ttys_test_mod 5 4 7 6 9)))) ! 2 =
     ttys_states (ttys_test_mod 5 4 7 6 9) ! 2 \<and>
   cnts_u16 (snd (snd (ttys_putc 0 0x41 (ttys_test_mod 5 4 7 6 9)))) = [9, 9, 9, 9, 10, 9] \<and>
   ttys_states (snd (ttys_interrupt 0 37
       \<lparr>sr_RXNE = True, sr_TXE = False, sr_ORE = True, sr_NE = True, sr_FE = True,
        sr_PE = True\<rparr> 0x61 (ttys_test_mod 5 4 7 6 9))) ! 2 =
     ttys_states (ttys_test_mod 5 4 7 6 9) ! 2 \<and>
   cnts_u16 (snd (ttys_interrupt 0 37
       \<lparr>sr_RXNE = True, sr_TXE = False, sr_ORE = True, sr_NE = True, sr_FE = True,
        sr_PE = True\<rparr> 0x61 (ttys_test_mod 5 4 7 6 9))) = [10, 10, 10, 10, 9, 10]"
proof -
  let ?m = "ttys_test_mod 5 4 7 6 9"
  let ?sr = "\<lparr>sr_RXNE = True, sr_TXE = False, sr_ORE = True, sr_NE = True, sr_FE = True,
        sr_PE = True\<rparr>"
  have ok: "ttys_mod_ok ?m"
    by (rule ttys_test_mod_ok) (simp_all add: TTYS_TX_BUF_SIZE_def TTYS_RX_BUF_SIZE_def)
  have a: "0 < TTYS_NUM_INSTANCES"
    by (simp add: TTYS_NUM_INSTANCES_def)
  have ab: "(0::nat) \<noteq> 2"
    by simp
  have st: "ttys_states ?m ! 0 = ttys_test_state 5 4 7 6"
    by (simp add: ttys_test_mod_def TTYS_NUM_INSTANCES_def)
  have cn: "cnts_u16 ?m = [9, 9, 9, 9, 9, 9]"
    by (simp add: ttys_test_mod_def NUM_U16_PMS_def eval_nat_numeral)
  have len: "length (cnts_u16 (snd (ttys_interrupt 0 37 ?sr 0x61 ?m))) = 6"
    by (simp add: ttys_interrupt_def ttys_interrupt_rx_def ttys_interrupt_tx_def
        ttys_interrupt_err_def st cn a ttys_test_state_def Let_def TTYS_RX_BUF_SIZE_def
        CNT_TX_BUF_OVERRUN_def CNT_RX_BUF_OVERRUN_def CNT_RX_UART_ORE_def
        CNT_RX_UART_NE_def CNT_RX_UART_FE_def CNT_RX_UART_PE_def)
  note w = ttys_counters_module_wide [OF ok a ab, where c = "0x41" and irq = 37 and sr = ?sr
      and dr = "0x61"]
  have p: "cnts_u16 (snd (snd (ttys_putc 0 0x41 ?m))) = [9, 9, 9, 9, 10, 9]"
    using w by (simp add: st cn ttys_test_state_def TTYS_TX_BUF_SIZE_def
        CNT_TX_BUF_OVERRUN_def INC_SAT_U16_def)
  have q: "cnts_u16 (snd (ttys_interrupt 0 37 ?sr 0x61 ?m)) ! k = [10, 10, 10, 10, 9, 10] ! k"
    if "k < 6" for k
  proof -
    have t: "cnts_u16 (snd (ttys_interrupt 0 37 ?sr 0x61 ?m)) ! CNT_TX_BUF_OVERRUN = 9"
      by (simp add: ttys_interrupt_def ttys_interrupt_rx_def ttys_interrupt_tx_def
          ttys_interrupt_err_def st cn a ttys_test_state_def Let_def TTYS_RX_BUF_SIZE_def
          CNT_TX_BUF_OVERRUN_def CNT_RX_BUF_OVERRUN_def CNT_RX_UART_ORE_def
          CNT_RX_UART_NE_def CNT_RX_UART_FE_def CNT_RX_UART_PE_def)
    from that consider "k = 0" | "k = 1" | "k = 2" | "k = 3" | "k = 4" | "k = 5"
      by linarith
    then show ?thesis
      using w t
      by cases (simp_all add: st cn ttys_test_state_def TTYS_RX_BUF_SIZE_def
          CNT_TX_BUF_OVERRUN_def CNT_RX_BUF_OVERRUN_def CNT_RX_UART_ORE_def
          CNT_RX_UART_NE_def CNT_RX_UART_FE_def CNT_RX_UART_PE_def INC_SAT_U16_def)
  qed
  have "cnts_u16 (snd (ttys_interrupt 0 37 ?sr 0x61 ?m)) = [10, 10, 10, 10, 9, 10]"
    using len q by (intro nth_equalityI) simp_all
  with p w show ?thesis
    by simp
qed

text \<open>The claim as stated fails: an overrun on port 0 alone moves the transmit-overrun
  counter from 0 to 1, and this is the counter that an overrun on port 1 increments (the
  two events give the same counter array), so no transmit-overrun counter of port 1 is
  left unchanged, although the state of port 1 is.\<close>

theorem ttys_counters_per_port_counterexample:
  "cnts_u16 (ttys_test_mod 5 4 0 0 0) ! CNT_TX_BUF_OVERRUN = 0 \<and>
   cnts_u16 (snd (snd (ttys_putc 0 0x41 (ttys_test_mod 5 4 0 0 0)))) ! CNT_TX_BUF_OVERRUN = 1 \<and>
   cnts_u16 (snd (snd (ttys_putc 1 0x41 (ttys_test_mod 5 4 0 0 0)))) =
     cnts_u16 (snd (snd (ttys_putc 0 0x41 (ttys_test_mod 5 4 0 0 0)))) \<and>
   ttys_states (snd (snd (ttys_putc 0 0x41 (ttys_test_mod 5 4 0 0 0)))) ! 1 =
     ttys_states (ttys_test_mod 5 4 0 0 0) ! 1"
  by (simp add: ttys_putc_def ttys_test_mod_def ttys_test_state_def INC_SAT_U16_def
      TTYS_NUM_INSTANCES_def TTYS_TX_BUF_SIZE_def NUM_U16_PMS_def CNT_TX_BUF_OVERRUN_def
      Let_def)

section \<open>Properties of the command engine\<close>

subsection \<open>Argument parsing\<close>

lemma strtoul_valid:
  assumes "valid_unsigned tok"
  obtains v where "tok \<noteq> []" and "strtoul tok 0 = (v, [])"
  using assms by (cases "strtoul tok 0") (simp add: valid_unsigned_def)

lemma strtoul_0x1G: "strtoul ''0x1G'' 0 = (1, ''G'')"
  by (simp add: strtoul_def strto_subject_def isspace_def digit_val_def Let_def)

lemma strtoul_7: "strtoul ''7'' 0 = (7, [])"
  by (simp add: strtoul_def strto_subject_def isspace_def digit_val_def Let_def)

text \<open>Claim C7: \<open>cmd_parse_args\<close> with the format \<open>u[u\<close> returns the count 1 for one
  valid unsigned token and 2 for two, with their values; it returns \<open>MOD_ERR_BAD_CMD\<close> for
  no token and for more tokens than the format consumes; a token with characters that
  \<open>strtoul\<close> does not consume, such as \<open>0x1G\<close>, gives \<open>MOD_ERR_ARG\<close> and a diagnostic
  that quotes the token, whether it is the first argument or follows a valid first
  argument.\<close>

theorem cmd_parse_args_u_opt_u:
  "(argv 0 = Some t1 \<and> valid_unsigned t1 \<longrightarrow>
      cmd_parse_args 1 argv ''u[u'' = ([], Inr (1, [Arg_u (fst (strtoul t1 0))]))) \<and>
   (argv 0 = Some t1 \<and> valid_unsigned t1 \<and> argv 1 = Some t2 \<and> valid_unsigned t2 \<longrightarrow>
      cmd_parse_args 2 argv ''u[u'' =
        ([], Inr (2, [Arg_u (fst (strtoul t1 0)), Arg_u (fst (strtoul t2 0))]))) \<and>
   (argc \<le> 0 \<longrightarrow>
      cmd_parse_args argc argv ''u[u'' = (''Insufficient arguments\<newline>'', Inl MOD_ERR_BAD_CMD)) \<and>
   (2 < argc \<and> argv 0 = Some t1 \<and> valid_unsigned t1 \<and> argv 1 = Some t2 \<and> valid_unsigned t2 \<longrightarrow>
      cmd_parse_args argc argv ''u[u'' = (''Too many arguments\<newline>'', Inl MOD_ERR_BAD_CMD)) \<and>
   (0 < argc \<and> argv 0 = Some t \<and> t \<noteq> [] \<and> snd (strtoul t 0) \<noteq> [] \<longrightarrow>
      cmd_parse_args argc argv ''u[u'' =
        (''Argument '' @ [CHR 0x27] @ t @ [CHR 0x27] @ '' not a valid unsigned integer\<newline>'',
         Inl MOD_ERR_ARG)) \<and>
   (1 < argc \<and> argv 0 = Some t1 \<and> valid_unsigned t1 \<and>
    argv 1 = Some t \<and> t \<noteq> [] \<and> snd (strtoul t 0) \<noteq> [] \<longrightarrow>
      cmd_parse_args argc argv ''u[u'' =
        (''Argument '' @ [CHR 0x27] @ t @ [CHR 0x27] @ '' not a valid unsigned integer\<newline>'',
         Inl MOD_ERR_ARG)) \<and>
   cmd_parse_args 1 (argv_of [''0x1G'']) ''u[u'' =
     (''Argument '' @ [CHR 0x27] @ ''0x1G'' @ [CHR 0x27] @
        '' not a valid unsigned integer\<newline>'', Inl MOD_ERR_ARG) \<and>
   cmd_parse_args 2 (argv_of [''7'', ''0x1G'']) ''u[u'' =
     (''Argument '' @ [CHR 0x27] @ ''0x1G'' @ [CHR 0x27] @
        '' not a valid unsigned integer\<newline>'', Inl MOD_ERR_ARG)"
proof (intro conjI impI)
  assume a: "argv 0 = Some t1 \<and> valid_unsigned t1"
  then obtain v1 where "t1 \<noteq> []" "strtoul t1 0 = (v1, [])"
    using strtoul_valid [of t1] by blast
  with a show "cmd_parse_args 1 argv ''u[u'' = ([], Inr (1, [Arg_u (fst (strtoul t1 0))]))"
    by (simp add: cmd_parse_args_def)
next
  assume a: "argv 0 = Some t1 \<and> valid_unsigned t1 \<and> argv 1 = Some t2 \<and> valid_unsigned t2"
  then obtain v1 v2 where "t1 \<noteq> []" "strtoul t1 0 = (v1, [])" "t2 \<noteq> []" "strtoul t2 0 = (v2, [])"
    using strtoul_valid [of t1] strtoul_valid [of t2] by metis
  with a show "cmd_parse_args 2 argv ''u[u'' =
        ([], Inr (2, [Arg_u (fst (strtoul t1 0)), Arg_u (fst (strtoul t2 0))]))"
    by (simp add: cmd_parse_args_def)
next
  assume "argc \<le> 0"
  then show "cmd_parse_args argc argv ''u[u'' =
      (''Insufficient arguments\<newline>'', Inl MOD_ERR_BAD_CMD)"
    by (simp add: cmd_parse_args_def)
next
  assume a: "2 < argc \<and> argv 0 = Some t1 \<and> valid_unsigned t1 \<and> argv 1 = Some t2 \<and>
    valid_unsigned t2"
  then obtain v1 v2 where "t1 \<noteq> []" "strtoul t1 0 = (v1, [])" "t2 \<noteq> []" "strtoul t2 0 = (v2, [])"
    using strtoul_valid [of t1] strtoul_valid [of t2] by metis
  with a show "cmd_parse_args argc argv ''u[u'' =
      (''Too many arguments\<newline>'', Inl MOD_ERR_BAD_CMD)"
    by (simp add: cmd_parse_args_def)
next
  assume "0 < argc \<and> argv 0 = Some t \<and> t \<noteq> [] \<and> snd (strtoul t 0) \<noteq> []"
  then show "cmd_parse_args argc argv ''u[u'' =
        (''Argument '' @ [CHR 0x27] @ t @ [CHR 0x27] @ '' not a valid unsigned integer\<newline>'',
         Inl MOD_ERR_ARG)"
    by (cases "strtoul t 0") (simp add: cmd_parse_args_def)
next
  assume a: "1 < argc \<and> argv 0 = Some t1 \<and> valid_unsigned t1 \<and>
    argv 1 = Some t \<and> t \<noteq> [] \<and> snd (strtoul t 0) \<noteq> []"
  then obtain v1 where "t1 \<noteq> []" "strtoul t1 0 = (v1, [])"
    using strtoul_valid [of t1] by blast
  with a show "cmd_parse_args argc argv ''u[u'' =
        (''Argument '' @ [CHR 0x27] @ t @ [CHR 0x27] @ '' not a valid unsigned integer\<newline>'',
         Inl MOD_ERR_ARG)"
    by (cases "strtoul t 0") (simp add: cmd_parse_args_def)
next
  show "cmd_parse_args 1 (argv_of [''0x1G'']) ''u[u'' =
     (''Argument '' @ [CHR 0x27] @ ''0x1G'' @ [CHR 0x27] @
        '' not a valid unsigned integer\<newline>'', Inl MOD_ERR_ARG)"
    by (simp add: cmd_parse_args_def argv_of_def strtoul_0x1G)
next
  show "cmd_parse_args 2 (argv_of [''7'', ''0x1G'']) ''u[u'' =
     (''Argument '' @ [CHR 0x27] @ ''0x1G'' @ [CHR 0x27] @
        '' not a valid unsigned integer\<newline>'', Inl MOD_ERR_ARG)"
    by (simp add: cmd_parse_args_def argv_of_def strtoul_0x1G strtoul_7)
qed

lemma valid_unsigned_42: "valid_unsigned ''42''" "fst (strtoul ''42'' 0) = 42"
  by (simp_all add: valid_unsigned_def strtoul_def strto_subject_def isspace_def digit_val_def Let_def)
lemma valid_unsigned_0x1F: "valid_unsigned ''0x1F''" "fst (strtoul ''0x1F'' 0) = 31"
  by (simp_all add: valid_unsigned_def strtoul_def strto_subject_def isspace_def digit_val_def Let_def)

theorem cmd_parse_args_u_opt_u_witness:
  "cmd_parse_args 1 (argv_of [''42'']) ''u[u'' = ([], Inr (1, [Arg_u 42])) \<and>
   cmd_parse_args 2 (argv_of [''42'', ''0x1F'']) ''u[u'' = ([], Inr (2, [Arg_u 42, Arg_u 31])) \<and>
   cmd_parse_args 0 (argv_of []) ''u[u'' = (''Insufficient arguments\<newline>'', Inl MOD_ERR_BAD_CMD) \<and>
   cmd_parse_args 3 (argv_of [''42'', ''0x1F'', ''7'']) ''u[u'' =
     (''Too many arguments\<newline>'', Inl MOD_ERR_BAD_CMD) \<and>
   cmd_parse_args 2 (argv_of [''12ab'', ''7'']) ''u[u'' =
     (''Argument '' @ [CHR 0x27] @ ''12ab'' @ [CHR 0x27] @
        '' not a valid unsigned integer\<newline>'', Inl MOD_ERR_ARG) \<and>
   cmd_parse_args 2 (argv_of [''42'', ''12ab'']) ''u[u'' =
     (''Argument '' @ [CHR 0x27] @ ''12ab'' @ [CHR 0x27] @
        '' not a valid unsigned integer\<newline>'', Inl MOD_ERR_ARG)"
proof -
  have bad: "snd (strtoul ''12ab'' 0) \<noteq> []"
    by (simp add: strtoul_def strto_subject_def isspace_def digit_val_def Let_def)
  have "cmd_parse_args 1 (argv_of [''42'']) ''u[u'' = ([], Inr (1, [Arg_u 42]))"
    using cmd_parse_args_u_opt_u [where argv = "argv_of [''42'']" and ?t1.0 = "''42''"] valid_unsigned_42
    by (simp add: argv_of_def)
  moreover
  have "cmd_parse_args 2 (argv_of [''42'', ''0x1F'']) ''u[u'' = ([], Inr (2, [Arg_u 42, Arg_u 31]))"
    using cmd_parse_args_u_opt_u [where argv = "argv_of [''42'', ''0x1F'']" and ?t1.0 = "''42''"
        and ?t2.0 = "''0x1F''"] valid_unsigned_42 valid_unsigned_0x1F
    by (simp add: argv_of_def)
  moreover
  have "cmd_parse_args 0 (argv_of []) ''u[u'' = (''Insufficient arguments\<newline>'', Inl MOD_ERR_BAD_CMD)"
    using cmd_parse_args_u_opt_u [where argv = "argv_of []" and argc = 0]
    by simp
  moreover
  have "cmd_parse_args 3 (argv_of [''42'', ''0x1F'', ''7'']) ''u[u'' =
     (''Too many arguments\<newline>'', Inl MOD_ERR_BAD_CMD)"
    using cmd_parse_args_u_opt_u [where argv = "argv_of [''42'', ''0x1F'', ''7'']" and argc = 3
        and ?t1.0 = "''42''" and ?t2.0 = "''0x1F''"] valid_unsigned_42 valid_unsigned_0x1F
    by (simp add: argv_of_def)
  moreover
  have "cmd_parse_args 2 (argv_of [''12ab'', ''7'']) ''u[u'' =
     (''Argument '' @ [CHR 0x27] @ ''12ab'' @ [CHR 0x27] @
        '' not a valid unsigned integer\<newline>'', Inl MOD_ERR_ARG)"
    using cmd_parse_args_u_opt_u [where argv = "argv_of [''12ab'', ''7'']" and argc = 2
        and t = "''12ab''"] bad
    by (simp add: argv_of_def)
  moreover
  have "cmd_parse_args 2 (argv_of [''42'', ''12ab'']) ''u[u'' =
     (''Argument '' @ [CHR 0x27] @ ''12ab'' @ [CHR 0x27] @
        '' not a valid unsigned integer\<newline>'', Inl MOD_ERR_ARG)"
    using cmd_parse_args_u_opt_u [where argv = "argv_of [''42'', ''12ab'']" and argc = 2
        and ?t1.0 = "''42''" and t = "''12ab''"] bad valid_unsigned_42
    by (simp add: argv_of_def)
  ultimately show ?thesis
    by blast
qed

subsection \<open>Dispatch\<close>

lemma log_level_int_from_neg:
  "0 \<le> k \<Longrightarrow> log_level_int_from t ns k < 0 \<longleftrightarrow> (\<forall>n \<in> set ns. strcasecmp t n \<noteq> 0)"
  by (induction ns arbitrary: k) auto

lemma log_level_int_neg:
  "log_level_int t < 0 \<longleftrightarrow> (\<forall>n \<in> set log_level_names. strcasecmp t n \<noteq> 0)"
  by (simp add: log_level_int_def log_level_int_from_neg)

lemma example_clients: "cmd_clients example_registry = [example_tmr_client, example_aux_client]"
  by (simp add: example_registry_def cmd_register_def cmd_register_from.simps cmd_init_def
      cmd_clients_def CMD_MAX_CLIENTS_def example_tmr_client_def example_aux_client_def
      tolower_def eval_nat_numeral)

text \<open>The wild card path of \<open>cmd_execute\<close>, for a line that the tokenizer splits into
  \<open>tokens\<close> (at most \<open>MAX_CMD_TOKENS\<close> of them) with first token \<open>*\<close>.\<close>

lemma cmd_execute_wildcard_path:
  assumes "cmd_tokenize bfr [] = Inr tokens" and "tokens \<noteq> []" and "tokens ! 0 = ''*''"
  shows "cmd_execute funcs client_info bfr w =
         cmd_execute_wildcard (cmd_clients client_info) tokens w"
  using assms by (simp add: cmd_execute_def)

text \<open>The part of the claim about \<open>log\<close> holds: with second token \<open>log\<close>
  (case-insensitive) and a third token that is no log-level name, \<open>cmd_execute\<close> returns
  \<open>MOD_ERR_ARG\<close> and changes no log level; it prints a message, through the serial
  transport.\<close>

lemma cmd_execute_wildcard_log_bad_level:
  assumes tok: "cmd_tokenize bfr [] = Inr tokens" and len: "3 \<le> length tokens"
    and star: "tokens ! 0 = ''*''" and lg: "strcasecmp (tokens ! 1) ''log'' = 0"
    and bad: "log_level_int (tokens ! 2) < 0"
  shows "fst (cmd_execute funcs client_info bfr w) = Inl MOD_ERR_ARG \<and>
         i32_mem (snd (cmd_execute funcs client_info bfr w)) = i32_mem w"
proof -
  have ne: "tokens \<noteq> []"
    using len by auto
  have "cmd_execute funcs client_info bfr w =
      cmd_execute_wildcard (cmd_clients client_info) tokens w"
    using tok ne star by (rule cmd_execute_wildcard_path)
  then show ?thesis
    using len lg bad
    by (auto simp: cmd_execute_wildcard_def Let_def printf_def split: prod.splits)
qed

text \<open>The part about another second token does not: the wild card block of the source has
  a branch for \<open>log\<close> only and ends in \<open>return 0\<close>, so every such line returns 0 and
  changes nothing.\<close>

lemma cmd_execute_wildcard_other:
  assumes tok: "cmd_tokenize bfr [] = Inr tokens" and len: "2 \<le> length tokens"
    and star: "tokens ! 0 = ''*''" and lg: "strcasecmp (tokens ! 1) ''log'' \<noteq> 0"
  shows "cmd_execute funcs client_info bfr w = (Inr 0, w)"
proof -
  have ne: "tokens \<noteq> []"
    using len by auto
  have "cmd_execute funcs client_info bfr w =
      cmd_execute_wildcard (cmd_clients client_info) tokens w"
    using tok ne star by (rule cmd_execute_wildcard_path)
  then show ?thesis
    using len lg by (simp add: cmd_execute_wildcard_def Let_def)
qed

text \<open>Claim C1 at the command line \<open>* foo\<close>: the first token is \<open>*\<close> and the second is
  not \<open>log\<close>, so the claim says \<open>MOD_ERR_ARG\<close>; \<open>cmd_execute\<close> returns 0 and changes
  nothing, prints nothing, for every registry and world. The other paths of
  \<open>cmd_execute\<close> do report a command they do not know: a lone \<open>*\<close> and the unknown
  command \<open>tmr foo\<close> of a client both give \<open>MOD_ERR_BAD_CMD\<close>. With a bad level name,
  \<open>* log bogus\<close>, the result is \<open>MOD_ERR_ARG\<close> as the claim says.\<close>

theorem cmd_execute_wildcard_not_log:
  "cmd_tokenize ''* foo'' [] = Inr [''*'', ''foo''] \<and>
   strcasecmp ''foo'' ''log'' \<noteq> 0 \<and>
   cmd_execute funcs client_info ''* foo'' w = (Inr 0, w) \<and>
   fst (cmd_execute funcs client_info ''*'' w) = Inl MOD_ERR_BAD_CMD \<and>
   fst (cmd_execute funcs example_registry ''tmr foo'' w) = Inl MOD_ERR_BAD_CMD \<and>
   fst (cmd_execute funcs client_info ''* log bogus'' w) = Inl MOD_ERR_ARG"
proof -
  have t: "cmd_tokenize ''* foo'' [] = Inr [''*'', ''foo'']"
    and t1: "cmd_tokenize ''*'' [] = Inr [''*'']"
    and t2: "cmd_tokenize ''tmr foo'' [] = Inr [''tmr'', ''foo'']"
    and t3: "cmd_tokenize ''* log bogus'' [] = Inr [''*'', ''log'', ''bogus'']"
    by (simp_all add: cmd_tokenize.simps isspace_def MAX_CMD_TOKENS_def Let_def)
  have n: "strcasecmp ''foo'' ''log'' \<noteq> 0"
    by (simp add: tolower_def)
  have a: "cmd_execute funcs client_info ''* foo'' w = (Inr 0, w)"
    using n by (simp add: cmd_execute_def cmd_execute_wildcard_def t)
  have b: "fst (cmd_execute funcs client_info ''*'' w) = Inl MOD_ERR_BAD_CMD"
    by (simp add: cmd_execute_def cmd_execute_wildcard_def t1)
  have f: "find (\<lambda>ci. strcasecmp ''tmr'' (name ci) = 0) (cmd_clients example_registry) =
      Some example_tmr_client"
    by (simp add: example_clients example_tmr_client_def tolower_def)
  have c: "fst (cmd_execute funcs example_registry ''tmr foo'' w) = Inl MOD_ERR_BAD_CMD"
    using f by (simp add: cmd_execute_def cmd_execute_client_def t2 example_tmr_client_def
        tolower_def)
  have "log_level_int ''bogus'' < 0"
    by (simp add: log_level_int_def log_level_names_def tolower_def)
  then have d: "fst (cmd_execute funcs client_info ''* log bogus'' w) = Inl MOD_ERR_ARG"
    by (simp add: cmd_execute_def cmd_execute_wildcard_def t3 tolower_def)
  from t n a b c d show ?thesis
    by simp
qed

text \<open>The message of \<open>* log bogus\<close> goes through \<open>printf\<close> to \<open>ttys_putc\<close>: when the
  transmit ring of the console is full, its 25 characters and the carriage return are
  dropped, and the transmit overrun counter, which the client \<open>ttys\<close> registers as a
  performance counter, goes from 0 to 26.\<close>

lemma cmd_execute_wildcard_log_overrun:
  "fst (cmd_execute funcs example_registry_ttys ''* log bogus'' example_world_tx_full) =
     Inl MOD_ERR_ARG \<and>
   u16_load example_world_tx_full (Ttys_cnt CNT_TX_BUF_OVERRUN) = 0 \<and>
   u16_load (snd (cmd_execute funcs example_registry_ttys ''* log bogus''
     example_world_tx_full)) (Ttys_cnt CNT_TX_BUF_OVERRUN) = 26"
proof -
  have t3: "cmd_tokenize ''* log bogus'' [] = Inr [''*'', ''log'', ''bogus'']"
    by (simp add: cmd_tokenize.simps isspace_def MAX_CMD_TOKENS_def Let_def)
  have bad: "log_level_int ''bogus'' < 0"
    by (simp add: log_level_int_def log_level_names_def tolower_def)
  have e: "cmd_execute funcs example_registry_ttys ''* log bogus'' example_world_tx_full =
      (Inl MOD_ERR_ARG, printf ''Invalid log level: bogus\<newline>'' example_world_tx_full)"
    using bad by (simp add: cmd_execute_def cmd_execute_wildcard_def t3 tolower_def)
  show ?thesis
    unfolding e
    by (simp add: printf_def ttys_write_def fd_to_instance_def UART1_FD_def UART2_FD_def
        UART6_FD_def TTYS_INSTANCE_UART2_def TTYS_NUM_INSTANCES_def ttys_putc_def
        example_world_tx_full_def ttys_test_mod_def ttys_test_state_def u16_load_def
        TTYS_TX_BUF_SIZE_def NUM_U16_PMS_def CNT_TX_BUF_OVERRUN_def INC_SAT_U16_def Let_def)
qed

lemma strcasecmp_zero_Cons:
  assumes "strcasecmp t (c # cs) = 0" and "(of_char (tolower c) :: nat) \<noteq> 0"
  shows "t \<noteq> [] \<and> tolower (hd t) = tolower c"
proof (cases t)
  case Nil
  with assms show ?thesis by simp
next
  case (Cons x xs)
  show ?thesis
  proof (rule ccontr)
    assume "\<not> ?thesis"
    with Cons have ne: "tolower x \<noteq> tolower c" by simp
    with assms(1) Cons have "int (of_char (tolower x)) = int (of_char (tolower c))"
      by simp
    then have "(of_char (tolower x) :: nat) = of_char (tolower c)"
      by (simp only: of_nat_eq_iff)
    then have "tolower x = tolower c"
      by (simp only: of_char_eq_iff)
    with ne show False by simp
  qed
qed

lemma second_token_distinct:
  assumes "strcasecmp t ''log'' = 0 \<or> strcasecmp t ''pm'' = 0"
  shows "strcasecmp t ''help'' \<noteq> 0" and "strcasecmp t ''?'' \<noteq> 0"
    and "strcasecmp t ''log'' = 0 \<Longrightarrow> strcasecmp t ''pm'' \<noteq> 0"
  using assms strcasecmp_zero_Cons [of t "CHR ''l''" "''og''"]
    strcasecmp_zero_Cons [of t "CHR ''p''" "''m''"]
    strcasecmp_zero_Cons [of t "CHR ''h''" "''elp''"]
    strcasecmp_zero_Cons [of t "CHR ''?''" "''''"]
  by (auto simp: tolower_def)

text \<open>Claim C9: for the client that the first token selects, \<open>cmd_execute\<close> handles the
  second tokens \<open>help\<close>, \<open>?\<close>, \<open>log\<close> and \<open>pm\<close> (case-insensitive) itself, before it
  looks at the client's commands: the result does not depend on the handlers at all, so
  a command that the client registers under the name \<open>log\<close> or \<open>pm\<close> is never
  dispatched. For \<open>log\<close> without a log-level reference and for \<open>pm\<close> without
  performance counters it returns 0 and changes nothing.\<close>

theorem cmd_execute_builtin_intercept:
  assumes tok: "cmd_tokenize bfr [] = Inr tokens" and len: "2 \<le> length tokens"
    and t0: "strcmp ''*'' (tokens ! 0) \<noteq> 0" "strcasecmp ''help'' (tokens ! 0) \<noteq> 0"
      "strcasecmp ''?'' (tokens ! 0) \<noteq> 0"
    and ci: "find (\<lambda>ci. strcasecmp (tokens ! 0) (name ci) = 0) (cmd_clients client_info) = Some ci"
  shows "(strcasecmp (tokens ! 1) ''help'' = 0 \<or> strcasecmp (tokens ! 1) ''?'' = 0 \<or>
          strcasecmp (tokens ! 1) ''log'' = 0 \<or> strcasecmp (tokens ! 1) ''pm'' = 0 \<longrightarrow>
            cmd_execute funcs client_info bfr w = cmd_execute funcs' client_info bfr w) \<and>
         (strcasecmp (tokens ! 1) ''log'' = 0 \<and> log_level_ptr ci = None \<longrightarrow>
            cmd_execute funcs client_info bfr w = (Inr 0, w)) \<and>
         (strcasecmp (tokens ! 1) ''pm'' = 0 \<and> num_u16_pms ci \<le> 0 \<longrightarrow>
            cmd_execute funcs client_info bfr w = (Inr 0, w))"
proof -
  have ne: "tokens \<noteq> []" and n1: "length tokens \<noteq> 1"
    using len by auto
  have ex: "cmd_execute f client_info bfr w = cmd_execute_client f ci tokens w" for f
    using tok ne t0 ci by (simp add: cmd_execute_def)
  show ?thesis
    unfolding ex
    using n1 second_token_distinct [of "tokens ! 1"]
    by (auto simp: cmd_execute_client_def Let_def)
qed

theorem cmd_execute_builtin_intercept_witness:
  "cmd_execute (\<lambda>f. example_handler) example_registry ''aux LOG'' example_world =
     (Inr 0, example_world) \<and>
   cmd_execute (\<lambda>f. example_handler) example_registry ''  aux  pm clear '' example_world =
     (Inr 0, example_world) \<and>
   cmd_execute (\<lambda>f. example_handler) example_registry ''aux run'' example_world =
     (Inr 0, printf ''handler called\<newline>''
        (example_world\<lparr>i32_mem := (i32_mem example_world)(100 := 5)\<rparr>))"
proof -
  have t1: "cmd_tokenize ''aux LOG'' [] = Inr [''aux'', ''LOG'']"
    and t2: "cmd_tokenize ''  aux  pm clear '' [] = Inr [''aux'', ''pm'', ''clear'']"
    and t3: "cmd_tokenize ''aux run'' [] = Inr [''aux'', ''run'']"
    by (simp_all add: cmd_tokenize.simps isspace_def MAX_CMD_TOKENS_def Let_def)
  have f: "find (\<lambda>ci. strcasecmp ''aux'' (name ci) = 0) (cmd_clients example_registry) =
      Some example_aux_client"
    by (simp add: example_clients example_tmr_client_def example_aux_client_def tolower_def)
  have n: "strcmp ''*'' ''aux'' \<noteq> 0" "strcasecmp ''help'' ''aux'' \<noteq> 0"
    "strcasecmp ''?'' ''aux'' \<noteq> 0" "strcasecmp ''LOG'' ''log'' = 0"
    "strcasecmp ''pm'' ''pm'' = 0"
    by (simp_all add: tolower_def)
  have a: "log_level_ptr example_aux_client = None" "num_u16_pms example_aux_client \<le> 0"
    by (simp_all add: example_aux_client_def num_u16_pms_def)
  have "cmd_execute (\<lambda>f. example_handler) example_registry ''aux LOG'' example_world =
     (Inr 0, example_world)"
    using cmd_execute_builtin_intercept [OF t1, where client_info = example_registry
        and ci = example_aux_client and funcs = "\<lambda>f. example_handler" and w = example_world]
      f n a
    by simp
  moreover
  have "cmd_execute (\<lambda>f. example_handler) example_registry ''  aux  pm clear '' example_world =
     (Inr 0, example_world)"
    using cmd_execute_builtin_intercept [OF t2, where client_info = example_registry
        and ci = example_aux_client and funcs = "\<lambda>f. example_handler" and w = example_world]
      f n a
    by simp
  moreover
  have "cmd_execute (\<lambda>f. example_handler) example_registry ''aux run'' example_world =
     (Inr 0, printf ''handler called\<newline>''
        (example_world\<lparr>i32_mem := (i32_mem example_world)(100 := 5)\<rparr>))"
    using f n
    by (simp add: cmd_execute_def cmd_execute_client_def t3 example_aux_client_def
        example_handler_def tolower_def)
  ultimately show ?thesis
    by simp
qed

end
